theory Spec2Isabelle
  imports Complex_Main "HOL-Library.Multiset" "HOL-Library.Sublist"
begin

section \<open>Python string primitives used by the proxy tools\<close>

text \<open>
  Strings are lists of code points below 256. \<open>isspace\<close> is Python's
  \<^verbatim>\<open>str.isspace\<close> on that range: TAB..CR, FS..US, SPACE, NEL and NBSP.
\<close>

definition isspace :: "char \<Rightarrow> bool" where
  "isspace c = (c \<in> set [CHR 0x09, CHR 0x0A, CHR 0x0B, CHR 0x0C, CHR 0x0D,
                           CHR 0x1C, CHR 0x1D, CHR 0x1E, CHR 0x1F, CHR 0x20,
                           CHR 0x85, CHR 0xA0])"

text \<open>\<^verbatim>\<open>s.strip()\<close>: whitespace removed at both ends.\<close>

definition strip :: "string \<Rightarrow> string" where
  "strip s = rev (dropWhile isspace (rev (dropWhile isspace s)))"

text \<open>\<^verbatim>\<open>s.split(sep)\<close> for a one-character separator: never an empty list.\<close>

fun split_on :: "char \<Rightarrow> string \<Rightarrow> string list" where
  "split_on sep [] = [[]]"
| "split_on sep (c # cs) =
     (if c = sep then [] # split_on sep cs
      else (case split_on sep cs of
              [] \<Rightarrow> [[c]]
            | part # parts \<Rightarrow> (c # part) # parts))"

definition is_digit :: "char \<Rightarrow> bool" where
  "is_digit c = (c \<in> set ''0123456789'')"

definition digit_val :: "char \<Rightarrow> int" where
  "digit_val c = int (of_char c) - 48"

text \<open>
  The digits of \<^verbatim>\<open>int(s)\<close>, base ten: one or more digits, single underscores
  allowed between digits only. \<open>prev\<close> tells whether the previous character was a digit.
\<close>

fun int_digits :: "bool \<Rightarrow> int \<Rightarrow> string \<Rightarrow> int option" where
  "int_digits prev acc [] = (if prev then Some acc else None)"
| "int_digits prev acc (c # cs) =
     (if is_digit c then int_digits True (10 * acc + digit_val c) cs
      else if c = CHR ''_'' \<and> prev then int_digits False acc cs
      else None)"

text \<open>
  \<^verbatim>\<open>int(s)\<close> on a string: surrounding whitespace is ignored, one sign is allowed,
  and anything else raises ValueError (\<open>None\<close> here). The whitespace that
  \<^verbatim>\<open>int\<close> ignores is TAB..CR and SPACE, and NEL and NBSP, which it reads as spaces;
  unlike \<^verbatim>\<open>str.strip\<close> it does not ignore FS..US. Python's limit on the number of
  digits (4300 by default in recent versions) is not modelled.
\<close>

definition isspace_int :: "char \<Rightarrow> bool" where
  "isspace_int c = (c \<in> set [CHR 0x09, CHR 0x0A, CHR 0x0B, CHR 0x0C, CHR 0x0D, CHR 0x20,
                               CHR 0x85, CHR 0xA0])"

definition py_int :: "string \<Rightarrow> int option" where
  "py_int s =
     (case rev (dropWhile isspace_int (rev (dropWhile isspace_int s))) of
        [] \<Rightarrow> None
      | c # cs \<Rightarrow>
          if c = CHR ''-'' then map_option uminus (int_digits False 0 cs)
          else if c = CHR ''+'' then int_digits False 0 cs
          else int_digits False 0 (c # cs))"

definition len :: "'a list \<Rightarrow> int" where
  "len xs = int (length xs)"

subsection \<open>Text written to and read from files\<close>

definition newline :: char where
  "newline = CHR 0x0A"

text \<open>\<^verbatim>\<open>'\n'.join(xs)\<close>.\<close>

fun join_nl :: "string list \<Rightarrow> string" where
  "join_nl [] = []"
| "join_nl [x] = x"
| "join_nl (x # y # ys) = x @ newline # join_nl (y # ys)"

text \<open>The text that a drain writes for a bucket: \<^verbatim>\<open>'\n'.join(bucket) + '\n'\<close>.\<close>

definition bucket_text :: "string list \<Rightarrow> string" where
  "bucket_text b = join_nl b @ [newline]"

text \<open>The lines of a text as reading the file gives them, line ends removed.\<close>

definition text_lines :: "string \<Rightarrow> string list" where
  "text_lines t =
     (let parts = split_on newline t in if last parts = [] then butlast parts else parts)"

section \<open>The checker's data (proxy\_checker.py)\<close>

text \<open>The keys of \<^verbatim>\<open>file_names\<close>: one output file and one bucket per key.\<close>

datatype category = Http | Https | Socks4 | Socks5 | Failed

datatype protocol = HTTP | HTTPS | SOCKS4 | SOCKS5

datatype exn =
    Timeout | ConnectionRefused | ProtocolMismatch | MalformedResponse
  | ValueError | OSError | FileNotFoundError | ZeroDivisionError | OtherException

text \<open>
  What the checker prints, as far as the properties below read it: the load report, the
  checkpoint notice, the dispatcher's error line and the summary with its success rate.
\<close>

datatype message =
    Loaded int int int
  | SavedIntermediate int
  | ErrorChecking string exn
  | Summary int int int int int int real

text \<open>
  The fields of \<^verbatim>\<open>ProxyChecker\<close> (the lock, the test URLs and the timestamp
  apart), and the part of the outside world it writes to: the five output files, each the
  text appended to it so far, and the console. \<open>probe_log\<close> is a ghost field: every
  probe function notes its own invocation there.
\<close>

record checker =
  timeout :: int
  max_workers :: int
  working_http :: "string list"
  working_https :: "string list"
  working_socks4 :: "string list"
  working_socks5 :: "string list"
  failed_proxies :: "string list"
  total_proxies :: int
  checked_proxies :: int
  last_save_count :: int
  save_interval :: int
  total_working_http :: int
  total_working_https :: int
  total_working_socks4 :: int
  total_working_socks5 :: int
  total_failed_proxies :: int
  out_files :: "category \<Rightarrow> string"
  console :: "message list"
  probe_log :: "(protocol \<times> string) list"

text \<open>\<^verbatim>\<open>ProxyChecker.__init__\<close>; a fresh timestamp names fresh, empty files.\<close>

definition ProxyChecker :: "int \<Rightarrow> int \<Rightarrow> checker" where
  "ProxyChecker t w =
     \<lparr> timeout = t, max_workers = w,
       working_http = [], working_https = [], working_socks4 = [], working_socks5 = [],
       failed_proxies = [],
       total_proxies = 0, checked_proxies = 0, last_save_count = 0, save_interval = 500,
       total_working_http = 0, total_working_https = 0, total_working_socks4 = 0,
       total_working_socks5 = 0, total_failed_proxies = 0,
       out_files = (\<lambda>_. []), console = [], probe_log = [] \<rparr>"

section \<open>Loading the candidates\<close>

text \<open>
  \<^verbatim>\<open>load_proxies\<close>. The source is the file's lines, or \<open>None\<close> when the file
  cannot be opened. \<^verbatim>\<open>list(set(all_lines))\<close> keeps one copy of each string in an order
  Python does not specify; \<open>remdups\<close> is one such order, and the order in which the
  candidates are recorded is a parameter of the run below.
\<close>

definition all_lines :: "string list \<Rightarrow> string list" where
  "all_lines ls = [strip line. line \<leftarrow> ls, strip line \<noteq> []]"

definition load_proxies :: "string list option \<Rightarrow> checker \<Rightarrow> checker \<times> string list" where
  "load_proxies src self =
     (case src of
        None \<Rightarrow> (self, [])
      | Some ls \<Rightarrow>
          (let proxies = remdups (all_lines ls);
               original_count = len (all_lines ls);
               unique_count = len proxies;
               duplicates_removed = original_count - unique_count
           in (self\<lparr> total_proxies := unique_count,
                      console := console self @
                        [Loaded original_count unique_count duplicates_removed] \<rparr>,
               proxies)))"

section \<open>The four probes\<close>

text \<open>
  The network is an oracle. \<open>requests_get net url proxy_url\<close> is what
  \<^verbatim>\<open>requests.get(url, proxies=..., timeout=..., verify=False)\<close> does through the proxy
  URL that \<^verbatim>\<open>proxy_dict\<close> gives for the scheme of \<open>url\<close>: a response with its
  status code, or an exception. \<open>socks_connect net ver ip port\<close> is the socket's
  \<^verbatim>\<open>set_proxy\<close>, \<^verbatim>\<open>settimeout\<close>, \<^verbatim>\<open>connect(("httpbin.org", 80))\<close> and
  \<^verbatim>\<open>close\<close>: \<open>None\<close> when all of them return, the exception otherwise.
\<close>

datatype http_reply = Response int | Raises exn

record network =
  requests_get :: "string \<Rightarrow> string \<Rightarrow> http_reply"
  socks_connect :: "protocol \<Rightarrow> string \<Rightarrow> int \<Rightarrow> exn option"

definition test_url :: string where
  "test_url = ''http://httpbin.org/ip''"

definition test_url_https :: string where
  "test_url_https = ''https://httpbin.org/ip''"

text \<open>
  The body of a \<^verbatim>\<open>try\<close> block: \<open>Inl e\<close> when it raises \<open>e\<close>, \<open>Inr True\<close> when it
  reaches \<^verbatim>\<open>return True\<close>, \<open>Inr False\<close> when it falls off its end.
  \<open>except_pass\<close> is the rest of each probe: \<^verbatim>\<open>except: pass\<close>, then
  \<^verbatim>\<open>return False\<close>.
\<close>

definition except_pass :: "exn + bool \<Rightarrow> bool" where
  "except_pass body = (case body of Inl e \<Rightarrow> False | Inr b \<Rightarrow> b)"

definition http_try :: "network \<Rightarrow> string \<Rightarrow> string \<Rightarrow> exn + bool" where
  "http_try net url proxy_url =
     (case requests_get net url proxy_url of
        Raises e \<Rightarrow> Inl e
      | Response status_code \<Rightarrow> Inr (status_code = 200))"

text \<open>\<^verbatim>\<open>ip, port = proxy.split(':')\<close> raises ValueError unless there are two parts.\<close>

definition unpack2 :: "string list \<Rightarrow> exn + (string \<times> string)" where
  "unpack2 parts = (case parts of [a, b] \<Rightarrow> Inr (a, b) | _ \<Rightarrow> Inl ValueError)"

definition socks_try :: "network \<Rightarrow> protocol \<Rightarrow> string \<Rightarrow> exn + bool" where
  "socks_try net ver p =
     (case unpack2 (split_on CHR '':'' p) of
        Inl e \<Rightarrow> Inl e
      | Inr (ip, port) \<Rightarrow>
          (case py_int port of
             None \<Rightarrow> Inl ValueError
           | Some port_num \<Rightarrow>
               (case socks_connect net ver ip port_num of
                  Some e \<Rightarrow> Inl e
                | None \<Rightarrow> Inr True)))"

definition invoked :: "protocol \<Rightarrow> string \<Rightarrow> checker \<Rightarrow> checker" where
  "invoked proto p self = self\<lparr> probe_log := probe_log self @ [(proto, p)] \<rparr>"

definition test_http_proxy :: "network \<Rightarrow> string \<Rightarrow> checker \<Rightarrow> bool \<times> checker" where
  "test_http_proxy net p self =
     (except_pass (http_try net test_url (''http://'' @ p)), invoked HTTP p self)"

definition test_https_proxy :: "network \<Rightarrow> string \<Rightarrow> checker \<Rightarrow> bool \<times> checker" where
  "test_https_proxy net p self =
     (except_pass (http_try net test_url_https (''https://'' @ p)), invoked HTTPS p self)"

definition test_socks4_proxy :: "network \<Rightarrow> string \<Rightarrow> checker \<Rightarrow> bool \<times> checker" where
  "test_socks4_proxy net p self =
     (except_pass (socks_try net SOCKS4 p), invoked SOCKS4 p self)"

definition test_socks5_proxy :: "network \<Rightarrow> string \<Rightarrow> checker \<Rightarrow> bool \<times> checker" where
  "test_socks5_proxy net p self =
     (except_pass (socks_try net SOCKS5 p), invoked SOCKS5 p self)"

section \<open>Buckets, totals and drains\<close>

fun bucket :: "category \<Rightarrow> checker \<Rightarrow> string list" where
  "bucket Http self = working_http self"
| "bucket Https self = working_https self"
| "bucket Socks4 self = working_socks4 self"
| "bucket Socks5 self = working_socks5 self"
| "bucket Failed self = failed_proxies self"

fun total :: "category \<Rightarrow> checker \<Rightarrow> int" where
  "total Http self = total_working_http self"
| "total Https self = total_working_https self"
| "total Socks4 self = total_working_socks4 self"
| "total Socks5 self = total_working_socks5 self"
| "total Failed self = total_failed_proxies self"

fun bucket_append :: "category \<Rightarrow> string \<Rightarrow> checker \<Rightarrow> checker" where
  "bucket_append Http p self = self\<lparr> working_http := working_http self @ [p] \<rparr>"
| "bucket_append Https p self = self\<lparr> working_https := working_https self @ [p] \<rparr>"
| "bucket_append Socks4 p self = self\<lparr> working_socks4 := working_socks4 self @ [p] \<rparr>"
| "bucket_append Socks5 p self = self\<lparr> working_socks5 := working_socks5 self @ [p] \<rparr>"
| "bucket_append Failed p self = self\<lparr> failed_proxies := failed_proxies self @ [p] \<rparr>"

fun bucket_clear :: "category \<Rightarrow> checker \<Rightarrow> checker" where
  "bucket_clear Http self = self\<lparr> working_http := [] \<rparr>"
| "bucket_clear Https self = self\<lparr> working_https := [] \<rparr>"
| "bucket_clear Socks4 self = self\<lparr> working_socks4 := [] \<rparr>"
| "bucket_clear Socks5 self = self\<lparr> working_socks5 := [] \<rparr>"
| "bucket_clear Failed self = self\<lparr> failed_proxies := [] \<rparr>"

fun total_add :: "category \<Rightarrow> int \<Rightarrow> checker \<Rightarrow> checker" where
  "total_add Http n self = self\<lparr> total_working_http := total_working_http self + n \<rparr>"
| "total_add Https n self = self\<lparr> total_working_https := total_working_https self + n \<rparr>"
| "total_add Socks4 n self = self\<lparr> total_working_socks4 := total_working_socks4 self + n \<rparr>"
| "total_add Socks5 n self = self\<lparr> total_working_socks5 := total_working_socks5 self + n \<rparr>"
| "total_add Failed n self = self\<lparr> total_failed_proxies := total_failed_proxies self + n \<rparr>"

text \<open>
  What a \<^verbatim>\<open>with open(name, 'a') as f: f.write(text)\<close> block does at some moment:
  the whole text is appended to the file, or the block raises OSError after the first
  \<open>n\<close> characters of the text have reached the file (none when the file cannot be opened,
  some when the disk fills up); in that case nothing after the block runs in the function.
  \<open>writable c\<close> is what the block does for the file of category \<open>c\<close>.
\<close>

datatype write_outcome = Written | Fails nat

definition file_append :: "category \<Rightarrow> string \<Rightarrow> checker \<Rightarrow> checker" where
  "file_append c t self = self\<lparr> out_files := (out_files self)(c := out_files self c @ t) \<rparr>"

text \<open>
  One \<^verbatim>\<open>if self.<bucket>:\<close> block of \<^verbatim>\<open>save_intermediate_results\<close>
  (\<open>clear = True\<close>: write, add the length to the total, clear) or of
  \<^verbatim>\<open>save_results\<close> (\<open>clear = False\<close>: write and add, the bucket is left as it is).
\<close>

definition save_bucket :: "bool \<Rightarrow> (category \<Rightarrow> write_outcome) \<Rightarrow> category \<Rightarrow> checker \<Rightarrow> exn option \<times> checker" where
  "save_bucket clear writable c self =
     (if bucket c self = [] then (None, self)
      else (case writable c of
              Fails n \<Rightarrow>
                (Some OSError, file_append c (take n (bucket_text (bucket c self))) self)
            | Written \<Rightarrow>
                (let self1 = file_append c (bucket_text (bucket c self)) self;
                     self2 = total_add c (len (bucket c self1)) self1
                 in (None, if clear then bucket_clear c self2 else self2))))"

fun save_buckets :: "bool \<Rightarrow> (category \<Rightarrow> write_outcome) \<Rightarrow> category list \<Rightarrow> checker \<Rightarrow> exn option \<times> checker" where
  "save_buckets clear writable [] self = (None, self)"
| "save_buckets clear writable (c # cs) self =
     (case save_bucket clear writable c self of
        (Some e, self1) \<Rightarrow> (Some e, self1)
      | (None, self1) \<Rightarrow> save_buckets clear writable cs self1)"

definition drain_order :: "category list" where
  "drain_order = [Http, Https, Socks4, Socks5, Failed]"

definition save_intermediate_results :: "(category \<Rightarrow> write_outcome) \<Rightarrow> checker \<Rightarrow> exn option \<times> checker" where
  "save_intermediate_results writable self =
     (case save_buckets True writable drain_order self of
        (Some e, self1) \<Rightarrow> (Some e, self1)
      | (None, self1) \<Rightarrow>
          (None, self1\<lparr> console := console self1 @ [SavedIntermediate (checked_proxies self1)],
                        last_save_count := checked_proxies self1 \<rparr>))"

definition save_results :: "(category \<Rightarrow> write_outcome) \<Rightarrow> checker \<Rightarrow> exn option \<times> checker" where
  "save_results writable self =
     (if working_http self \<noteq> [] \<or> working_https self \<noteq> [] \<or> working_socks4 self \<noteq> []
         \<or> working_socks5 self \<noteq> [] \<or> failed_proxies self \<noteq> []
      then save_buckets False writable drain_order self
      else (None, self))"

section \<open>Checking one candidate and recording its outcome\<close>

text \<open>The \<^verbatim>\<open>results\<close> dictionary of \<^verbatim>\<open>check_proxy\<close>.\<close>

record probe_results =
  res_proxy :: string
  res_http :: bool
  res_https :: bool
  res_socks4 :: bool
  res_socks5 :: bool

text \<open>
  The first half of the locked section of \<^verbatim>\<open>check_proxy\<close>: the counter, the four
  appends and the decision for the failed bucket.
\<close>

definition record_results :: "probe_results \<Rightarrow> checker \<Rightarrow> checker" where
  "record_results r self =
     (let p = res_proxy r;
          s0 = self\<lparr> checked_proxies := checked_proxies self + 1 \<rparr>;
          s1 = (if res_http r then bucket_append Http p s0 else s0);
          s2 = (if res_https r then bucket_append Https p s1 else s1);
          s3 = (if res_socks4 r then bucket_append Socks4 p s2 else s2);
          s4 = (if res_socks5 r then bucket_append Socks5 p s3 else s3)
      in if \<not> (res_http r \<or> res_https r \<or> res_socks4 r \<or> res_socks5 r)
         then bucket_append Failed p s4 else s4)"

text \<open>
  \<^verbatim>\<open>check_proxy\<close>: the four probes one after the other, then the locked section. An
  exception of the checkpoint drain leaves the method with the object as it is at that
  moment; so does the division by \<^verbatim>\<open>total_proxies\<close> in the progress line when that
  is zero.
\<close>

definition check_proxy :: "network \<Rightarrow> (category \<Rightarrow> write_outcome) \<Rightarrow> string \<Rightarrow> checker \<Rightarrow> (exn + probe_results) \<times> checker" where
  "check_proxy net writable p self =
     (case test_http_proxy net p self of (b1, s1) \<Rightarrow>
      case test_https_proxy net p s1 of (b2, s2) \<Rightarrow>
      case test_socks4_proxy net p s2 of (b3, s3) \<Rightarrow>
      case test_socks5_proxy net p s3 of (b4, s4) \<Rightarrow>
        (let results = \<lparr> res_proxy = p, res_http = b1, res_https = b2,
                          res_socks4 = b3, res_socks5 = b4 \<rparr>;
             s5 = record_results results s4
         in case (if checked_proxies s5 - last_save_count s5 \<ge> save_interval s5
                  then save_intermediate_results writable s5 else (None, s5)) of
              (Some e, s6) \<Rightarrow> (Inl e, s6)
            | (None, s6) \<Rightarrow>
                if total_proxies s6 = 0 then (Inl ZeroDivisionError, s6)
                else (Inr results, s6)))"

section \<open>The run\<close>

text \<open>
  The pool's workers enter the locked section one at a time, so a run records the
  candidates in some order. \<open>check_all\<close> is the run over the candidates in the order
  they are recorded; an exception of a task is caught by the dispatcher's loop, which
  prints it and goes on. \<open>fs n c\<close> is what a write to the file of category \<open>c\<close>
  does while the \<open>n\<close>-th candidate is being recorded.
\<close>

fun check_all :: "network \<Rightarrow> (int \<Rightarrow> category \<Rightarrow> write_outcome) \<Rightarrow> string list \<Rightarrow> checker \<Rightarrow> checker" where
  "check_all net fs [] self = self"
| "check_all net fs (p # ps) self =
     (case check_proxy net (fs (checked_proxies self + 1)) p self of
        (Inl e, self1) \<Rightarrow>
          check_all net fs ps (self1\<lparr> console := console self1 @ [ErrorChecking p e] \<rparr>)
      | (Inr r, self1) \<Rightarrow> check_all net fs ps self1)"

definition success_rate :: "checker \<Rightarrow> real" where
  "success_rate self =
     (let total_working = total_working_http self + total_working_https self
                          + total_working_socks4 self + total_working_socks5 self
      in if total_working \<le> total_proxies self
         then (real_of_int total_working / real_of_int (total_proxies self)) * 100
         else (real_of_int (total_proxies self - total_failed_proxies self)
                 / real_of_int (total_proxies self)) * 100)"

text \<open>
  \<^verbatim>\<open>display_results\<close>: the summary is printed from the totals as they are when it is
  called, then \<^verbatim>\<open>save_results\<close> writes what is left in the buckets. The average time
  per proxy divides by \<^verbatim>\<open>total_proxies\<close>.
\<close>

definition display_results :: "(category \<Rightarrow> write_outcome) \<Rightarrow> checker \<Rightarrow> exn option \<times> checker" where
  "display_results writable self =
     (if total_proxies self = 0 then (Some ZeroDivisionError, self)
      else save_results writable
             (self\<lparr> console := console self @
                [Summary (total_proxies self) (total_working_http self)
                   (total_working_https self) (total_working_socks4 self)
                   (total_working_socks5 self) (total_failed_proxies self)
                   (success_rate self)] \<rparr>))"

text \<open>
  \<^verbatim>\<open>run_check\<close>. \<open>sched w p\<close> is the moment at which a pool of \<open>w\<close> workers has
  the outcome of candidate \<open>p\<close> recorded: the candidates are recorded in the order of
  these moments. The candidates are distinct, so every order of recording is the order of
  some \<open>sched\<close>. The pool size is taken to be at least 1: the executor refuses a smaller
  one before any candidate is checked, which is not modelled.
\<close>

definition run_check :: "network \<Rightarrow> (int \<Rightarrow> category \<Rightarrow> write_outcome) \<Rightarrow> (category \<Rightarrow> write_outcome) \<Rightarrow> (int \<Rightarrow> string \<Rightarrow> nat) \<Rightarrow> string list option \<Rightarrow> checker \<Rightarrow> exn option \<times> checker" where
  "run_check net fs fs_final sched src self =
     (case load_proxies src self of (self1, proxies) \<Rightarrow>
        if proxies = [] then (None, self1)
        else display_results fs_final
               (check_all net fs (sort_key (sched (max_workers self1)) proxies) self1))"

section \<open>The scraper's validation and extraction (proxy\_scraper.py)\<close>

text \<open>
  The loop of \<^verbatim>\<open>validate_proxy_format\<close> over the parts of the address: \<open>Inl\<close> when
  \<^verbatim>\<open>int(part)\<close> raises, \<open>Inr False\<close> when a part is out of range (the loop returns
  False), \<open>Inr True\<close> when the loop ends.
\<close>

fun check_parts :: "string list \<Rightarrow> exn + bool" where
  "check_parts [] = Inr True"
| "check_parts (part # parts) =
     (case py_int part of
        None \<Rightarrow> Inl ValueError
      | Some n \<Rightarrow> if \<not> (0 \<le> n \<and> n \<le> 255) then Inr False else check_parts parts)"

text \<open>The \<^verbatim>\<open>try\<close> block of \<^verbatim>\<open>validate_proxy_format\<close>.\<close>

definition validate_try :: "string \<Rightarrow> exn + bool" where
  "validate_try p =
     (case unpack2 (split_on CHR '':'' p) of
        Inl e \<Rightarrow> Inl e
      | Inr (ip, port) \<Rightarrow>
          (let parts = split_on CHR ''.'' ip in
           if length parts \<noteq> 4 then Inr False
           else (case check_parts parts of
                   Inl e \<Rightarrow> Inl e
                 | Inr False \<Rightarrow> Inr False
                 | Inr True \<Rightarrow>
                     (case py_int port of
                        None \<Rightarrow> Inl ValueError
                      | Some port_num \<Rightarrow>
                          if \<not> (1 \<le> port_num \<and> port_num \<le> 65535) then Inr False
                          else Inr True))))"

text \<open>\<^verbatim>\<open>validate_proxy_format\<close>: the block, and \<^verbatim>\<open>except: return False\<close>.\<close>

definition validate_proxy_format :: "string \<Rightarrow> bool" where
  "validate_proxy_format p = (case validate_try p of Inl e \<Rightarrow> False | Inr b \<Rightarrow> b)"

text \<open>
  The two entries of \<^verbatim>\<open>proxy_patterns\<close>: IP:PORT, and the same with spaces allowed
  around the dots and the colon. The regular-expression engine is a parameter:
  \<open>findall pat page\<close> is \<^verbatim>\<open>re.findall(pattern, text, re.IGNORECASE)\<close>.
\<close>

datatype proxy_pattern = IpPort | IpPortSpaced

definition proxy_patterns :: "proxy_pattern list" where
  "proxy_patterns = [IpPort, IpPortSpaced]"

text \<open>\<^verbatim>\<open>re.sub(r'\s+', '', match)\<close>.\<close>

definition remove_spaces :: "string \<Rightarrow> string" where
  "remove_spaces m = filter (\<lambda>c. \<not> isspace c) m"

text \<open>
  \<^verbatim>\<open>extract_proxies_from_text\<close>: the inner loop over the matches of one pattern, the
  outer loop over the patterns. The set \<^verbatim>\<open>proxies\<close> is a list without duplicates.
\<close>

fun add_matches :: "string list \<Rightarrow> string list \<Rightarrow> string list" where
  "add_matches [] proxies = proxies"
| "add_matches (m # ms) proxies =
     (let p = remove_spaces m
      in add_matches ms (if validate_proxy_format p then List.insert p proxies else proxies))"

fun extract_patterns :: "(proxy_pattern \<Rightarrow> string \<Rightarrow> string list) \<Rightarrow> proxy_pattern list \<Rightarrow> string \<Rightarrow> string list \<Rightarrow> string list" where
  "extract_patterns findall [] page proxies = proxies"
| "extract_patterns findall (pat # pats) page proxies =
     extract_patterns findall pats page (add_matches (findall pat page) proxies)"

definition extract_proxies_from_text :: "(proxy_pattern \<Rightarrow> string \<Rightarrow> string list) \<Rightarrow> string \<Rightarrow> string list" where
  "extract_proxies_from_text findall page = extract_patterns findall proxy_patterns page []"

section \<open>What the properties are stated with\<close>

text \<open>The outcome of the four probes on a candidate, as the network decides it.\<close>

definition outcome :: "network \<Rightarrow> string \<Rightarrow> probe_results" where
  "outcome net p =
     \<lparr> res_proxy = p,
       res_http = except_pass (http_try net test_url (''http://'' @ p)),
       res_https = except_pass (http_try net test_url_https (''https://'' @ p)),
       res_socks4 = except_pass (socks_try net SOCKS4 p),
       res_socks5 = except_pass (socks_try net SOCKS5 p) \<rparr>"

text \<open>Whether an outcome places its endpoint in a category.\<close>

fun placed :: "category \<Rightarrow> probe_results \<Rightarrow> bool" where
  "placed Http r = res_http r"
| "placed Https r = res_https r"
| "placed Socks4 r = res_socks4 r"
| "placed Socks5 r = res_socks5 r"
| "placed Failed r = (\<not> res_http r \<and> \<not> res_https r \<and> \<not> res_socks4 r \<and> \<not> res_socks5 r)"

text \<open>The text of a list of endpoints, one per line, each line ended by a newline.\<close>

definition lines_text :: "string list \<Rightarrow> string" where
  "lines_text ps = concat (map (\<lambda>p. p @ [newline]) ps)"

text \<open>
  The text of a category that the checker holds: the text in the file, then the lines of
  the bucket.
\<close>

definition stored :: "category \<Rightarrow> checker \<Rightarrow> string" where
  "stored c self = out_files self c @ lines_text (bucket c self)"

text \<open>
  An endpoint is held for a category when it is in the bucket, or its characters followed by
  a line end are part of the file (after a write that stopped midway they may follow, on
  their line, the characters that write left).
\<close>

definition held :: "category \<Rightarrow> string \<Rightarrow> checker \<Rightarrow> bool" where
  "held c p self = (p \<in> set (bucket c self) \<or> sublist (p @ [newline]) (out_files self c))"

text \<open>The number of lines in the five output files together.\<close>

definition lines_written :: "checker \<Rightarrow> int" where
  "lines_written self =
     len (text_lines (out_files self Http)) + len (text_lines (out_files self Https))
     + len (text_lines (out_files self Socks4)) + len (text_lines (out_files self Socks5))
     + len (text_lines (out_files self Failed))"

text \<open>A file system on which every write succeeds.\<close>

definition always_writable :: "category \<Rightarrow> write_outcome" where
  "always_writable c = Written"

text \<open>What a category accounts for: its cumulative total and the length of its bucket.\<close>

definition accounted :: "category \<Rightarrow> checker \<Rightarrow> int" where
  "accounted c s = total c s + len (bucket c s)"

text \<open>The fields no bucket operation touches, and those among them no drain touches.\<close>

definition scalars :: "checker \<Rightarrow> int \<times> int \<times> int \<times> int \<times> int \<times> int \<times> message list \<times> (protocol \<times> string) list" where
  "scalars s = (timeout s, max_workers s, total_proxies s, checked_proxies s, last_save_count s,
                save_interval s, console s, probe_log s)"

definition config :: "checker \<Rightarrow> int \<times> int \<times> int \<times> int \<times> int \<times> (protocol \<times> string) list" where
  "config s = (timeout s, max_workers s, total_proxies s, checked_proxies s, save_interval s, probe_log s)"

text \<open>The probe invocations of one \<^verbatim>\<open>check_proxy\<close> call, in the order of the code.\<close>

definition probe_calls :: "string \<Rightarrow> (protocol \<times> string) list" where
  "probe_calls p = [(HTTP, p), (HTTPS, p), (SOCKS4, p), (SOCKS5, p)]"

text \<open>The checker after the probes and the appends of one candidate, before the checkpoint test.\<close>

definition after_record :: "network \<Rightarrow> string \<Rightarrow> checker \<Rightarrow> checker" where
  "after_record net p s =
     record_results (outcome net p) (s\<lparr> probe_log := probe_log s @ probe_calls p \<rparr>)"

text \<open>The candidates a source yields: what \<^verbatim>\<open>load_proxies\<close> returns.\<close>

definition candidates :: "string list option \<Rightarrow> string list" where
  "candidates src = (case src of None \<Rightarrow> [] | Some ls \<Rightarrow> remdups (all_lines ls))"

text \<open>Among the candidates recorded, those whose outcome places them in a category.\<close>

definition recorded_in :: "network \<Rightarrow> category \<Rightarrow> string list \<Rightarrow> string list" where
  "recorded_in net c ps = filter (\<lambda>p. placed c (outcome net p)) ps"

text \<open>The number of buckets an outcome puts its endpoint in.\<close>

definition placements :: "probe_results \<Rightarrow> int" where
  "placements r =
     (if res_http r then 1 else 0) + (if res_https r then 1 else 0)
     + (if res_socks4 r then 1 else 0) + (if res_socks5 r then 1 else 0)
     + (if placed Failed r then 1 else 0)"

text \<open>A file system on which every write of a checkpoint drain succeeds.\<close>

definition writable_throughout :: "int \<Rightarrow> category \<Rightarrow> write_outcome" where
  "writable_throughout n c = Written"

text \<open>
  The checker when the dispatcher's loop of \<^verbatim>\<open>run_check\<close> is over, which is the
  state \<^verbatim>\<open>display_results\<close> is called in.
\<close>

definition loop_state :: "network \<Rightarrow> (int \<Rightarrow> category \<Rightarrow> write_outcome) \<Rightarrow> (int \<Rightarrow> string \<Rightarrow> nat) \<Rightarrow> string list option \<Rightarrow> checker \<Rightarrow> checker" where
  "loop_state net fs sched src self =
     check_all net fs (sort_key (sched (max_workers self)) (candidates src))
       (fst (load_proxies src self))"

text \<open>The success rates that the summaries printed so far show.\<close>

fun rate_of :: "message \<Rightarrow> real list" where
  "rate_of (Summary n a b c d f r) = [r]"
| "rate_of m = []"

definition displayed_rates :: "checker \<Rightarrow> real list" where
  "displayed_rates s = concat (map rate_of (console s))"

text \<open>
  The syntactic validation of an endpoint in the words of the specification: a host:port
  pair with a non-empty host and a port that is an integer between 1 and 65535.
\<close>

definition endpoint_syntax_ok :: "string \<Rightarrow> bool" where
  "endpoint_syntax_ok e =
     (case split_on CHR '':'' e of
        [host, port] \<Rightarrow>
          host \<noteq> [] \<and> (case py_int port of None \<Rightarrow> False | Some n \<Rightarrow> 1 \<le> n \<and> n \<le> 65535)
      | _ \<Rightarrow> False)"

subsection \<open>A stub probe layer and schedules, for concrete runs\<close>

text \<open>
  Endpoint 1.2.3.4:8080 answers 200 as an HTTP and as an HTTPS proxy, 9.9.9.9:1080 is a
  SOCKS5 proxy only, every other endpoint fails all four probes.
\<close>

definition stub_net :: network where
  "stub_net =
     \<lparr> requests_get = (\<lambda>url proxy_url.
          if proxy_url = ''http://1.2.3.4:8080'' then Response 200
          else if proxy_url = ''https://1.2.3.4:8080'' then Response 200
          else if proxy_url = ''https://9.9.9.9:1080'' then Response 503
          else Raises Timeout),
       socks_connect = (\<lambda>ver ip port.
          if ver = SOCKS5 \<and> ip = ''9.9.9.9'' \<and> port = 1080 then None
          else Some ConnectionRefused) \<rparr>"

text \<open>All candidates recorded in the order of the list.\<close>

definition sched_fifo :: "int \<Rightarrow> string \<Rightarrow> nat" where
  "sched_fifo w p = 0"

text \<open>With more than one worker, 5.6.7.8:3128 is recorded first.\<close>

definition stub_sched :: "int \<Rightarrow> string \<Rightarrow> nat" where
  "stub_sched w p = (if w \<le> 1 then 0 else if p = ''5.6.7.8:3128'' then 0 else 1)"

text \<open>File systems on which the file of one category cannot be opened.\<close>

definition http_unwritable :: "category \<Rightarrow> write_outcome" where
  "http_unwritable c = (if c = Http then Fails 0 else Written)"

definition failed_unwritable :: "category \<Rightarrow> write_outcome" where
  "failed_unwritable c = (if c = Failed then Fails 0 else Written)"

text \<open>A file system on which the http file cannot be opened during any checkpoint drain.\<close>

definition http_unwritable_throughout :: "int \<Rightarrow> category \<Rightarrow> write_outcome" where
  "http_unwritable_throughout n = http_unwritable"

text \<open>
  A file system on which a write to the http file stops after 5 characters during every
  checkpoint drain.
\<close>

definition http_disk_full :: "int \<Rightarrow> category \<Rightarrow> write_outcome" where
  "http_disk_full n c = (if c = Http then Fails 5 else Written)"

text \<open>
  A file system on which the write to the failed file stops after 20 characters while the
  third candidate is being recorded, and every other write succeeds.
\<close>

definition failed_disk_full_at_third :: "int \<Rightarrow> category \<Rightarrow> write_outcome" where
  "failed_disk_full_at_third n c = (if n = 3 \<and> c = Failed then Fails 20 else Written)"

text \<open>What a stub regular-expression engine finds on a page.\<close>

definition stub_findall :: "proxy_pattern \<Rightarrow> string \<Rightarrow> string list" where
  "stub_findall pat page =
     (case pat of
        IpPort \<Rightarrow> [''1.2.3.4:8080'', ''999.1.1.1:80'', ''1.2.3.4:0'', ''1.2.3.4:8080'']
      | IpPortSpaced \<Rightarrow> [''5.6.7.8 : 3128'', ''1.2.3.4:8080''])"

section \<open>Buckets, totals and files under the checker's operations\<close>

lemma lines_text_simps [simp]:
  "lines_text [] = []"
  "lines_text (p # ps) = p @ newline # lines_text ps"
  "lines_text (xs @ ys) = lines_text xs @ lines_text ys"
  by (simp_all add: lines_text_def)

lemma bucket_text_lines_text: "b \<noteq> [] \<Longrightarrow> bucket_text b = lines_text b"
  by (induction b rule: join_nl.induct) (simp_all add: bucket_text_def)

lemma bucket_upd [simp]:
  "bucket c (bucket_append c' p s) = (if c = c' then bucket c s @ [p] else bucket c s)"
  "bucket c (bucket_clear c' s) = (if c = c' then [] else bucket c s)"
  "bucket c (total_add c' n s) = bucket c s"
  "bucket c (file_append c' t s) = bucket c s"
  by (cases c; cases c'; simp add: file_append_def)+

lemma total_upd [simp]:
  "total c (bucket_append c' p s) = total c s"
  "total c (bucket_clear c' s) = total c s"
  "total c (total_add c' n s) = (if c = c' then total c s + n else total c s)"
  "total c (file_append c' t s) = total c s"
  by (cases c; cases c'; simp add: file_append_def)+

lemma out_files_upd [simp]:
  "out_files (bucket_append c' p s) = out_files s"
  "out_files (bucket_clear c' s) = out_files s"
  "out_files (total_add c' n s) = out_files s"
  "out_files (file_append c' t s) c = (if c = c' then out_files s c @ t else out_files s c)"
  by (cases c'; simp add: file_append_def)+

lemma scalars_upd [simp]:
  "scalars (bucket_append c' p s) = scalars s"
  "scalars (bucket_clear c' s) = scalars s"
  "scalars (total_add c' n s) = scalars s"
  "scalars (file_append c' t s) = scalars s"
  by (cases c'; simp add: file_append_def scalars_def)+

lemma bucket_frame [simp]:
  "bucket c (s\<lparr>checked_proxies := n\<rparr>) = bucket c s"
  "bucket c (s\<lparr>last_save_count := n\<rparr>) = bucket c s"
  "bucket c (s\<lparr>console := ms\<rparr>) = bucket c s"
  "bucket c (s\<lparr>probe_log := pl\<rparr>) = bucket c s"
  "bucket c (s\<lparr>total_proxies := n\<rparr>) = bucket c s"
  "bucket c (s\<lparr>save_interval := n\<rparr>) = bucket c s"
  by (cases c; simp)+

lemma total_frame [simp]:
  "total c (s\<lparr>checked_proxies := n\<rparr>) = total c s"
  "total c (s\<lparr>last_save_count := n\<rparr>) = total c s"
  "total c (s\<lparr>console := ms\<rparr>) = total c s"
  "total c (s\<lparr>probe_log := pl\<rparr>) = total c s"
  "total c (s\<lparr>total_proxies := n\<rparr>) = total c s"
  "total c (s\<lparr>save_interval := n\<rparr>) = total c s"
  by (cases c; simp)+

lemma save_bucket_scalars: "save_bucket clear w c s = (e, s') \<Longrightarrow> scalars s' = scalars s"
  by (auto simp: save_bucket_def Let_def split: if_splits write_outcome.splits)

lemma save_bucket_None:
  assumes "save_bucket clear w c s = (None, s')"
  shows "out_files s' c' = (if c' = c then out_files s c @ lines_text (bucket c s) else out_files s c')"
    and "total c' s' = (if c' = c then total c s + len (bucket c s) else total c' s)"
    and "bucket c' s' = (if c' = c \<and> clear then [] else bucket c' s)"
  using assms
  by (auto simp: save_bucket_def Let_def len_def bucket_text_lines_text
      split: if_splits write_outcome.splits)

lemma save_bucket_Some:
  assumes "save_bucket clear w c s = (Some e, s')"
  shows "e = OSError" and "bucket c s \<noteq> []"
    and "\<exists>n. w c = Fails n \<and> out_files s' c = out_files s c @ take n (bucket_text (bucket c s))"
    and "c' \<noteq> c \<Longrightarrow> out_files s' c' = out_files s c'"
    and "bucket c' s' = bucket c' s"
    and "total c' s' = total c' s"
  using assms
  by (auto simp: save_bucket_def Let_def split: if_splits write_outcome.splits)

lemma save_bucket_writable:
  "w c = Written \<Longrightarrow> \<exists>s'. save_bucket clear w c s = (None, s')"
  by (auto simp: save_bucket_def Let_def)

text \<open>
  A relation between checkers that is reflexive, transitive and holds across every single
  bucket save holds across a drain, whether it succeeds or not.
\<close>

lemma save_buckets_rel:
  assumes "save_buckets clear w cs s = (e, s')"
    and refl: "\<And>a. R a a"
    and trans: "\<And>a b c. R a b \<Longrightarrow> R b c \<Longrightarrow> R a c"
    and step: "\<And>c a e b. save_bucket clear w c a = (e, b) \<Longrightarrow> R a b"
  shows "R s s'"
  using assms(1)
proof (induction cs arbitrary: s)
  case Nil
  then show ?case by (simp add: refl)
next
  case (Cons c cs)
  obtain e1 s1 where st: "save_bucket clear w c s = (e1, s1)" by fastforce
  then have first: "R s s1" by (rule step)
  show ?case
  proof (cases e1)
    case None
    with Cons st have "R s1 s'" by simp
    with first show ?thesis by (rule trans)
  next
    case (Some x)
    with Cons.prems st have "s' = s1" by simp
    with first show ?thesis by simp
  qed
qed

text \<open>The same for a drain that succeeds, from the bucket saves that succeed.\<close>

lemma save_buckets_rel_None:
  assumes "save_buckets clear w cs s = (None, s')"
    and refl: "\<And>a. R a a"
    and trans: "\<And>a b c. R a b \<Longrightarrow> R b c \<Longrightarrow> R a c"
    and step: "\<And>c a b. save_bucket clear w c a = (None, b) \<Longrightarrow> R a b"
  shows "R s s'"
  using assms(1)
proof (induction cs arbitrary: s)
  case Nil
  then show ?case by (simp add: refl)
next
  case (Cons c cs)
  obtain e1 s1 where st: "save_bucket clear w c s = (e1, s1)" by fastforce
  show ?case
  proof (cases e1)
    case None
    with st have "R s s1" by (simp add: step)
    moreover from Cons st None have "R s1 s'" by simp
    ultimately show ?thesis by (rule trans)
  next
    case (Some x)
    with Cons.prems st show ?thesis by simp
  qed
qed

lemma save_buckets_scalars:
  "save_buckets clear w cs s = (e, s') \<Longrightarrow> scalars s' = scalars s"
  by (erule save_buckets_rel [where R = "\<lambda>a b. scalars b = scalars a"])
     (simp_all add: save_bucket_scalars)

lemma save_bucket_accounted:
  "save_bucket True w c s = (e, s') \<Longrightarrow> accounted c' s' = accounted c' s"
  by (cases e) (simp_all add: accounted_def save_bucket_None save_bucket_Some len_def)

lemma save_buckets_accounted:
  "save_buckets True w cs s = (e, s') \<Longrightarrow> accounted c' s' = accounted c' s"
  by (erule save_buckets_rel [where R = "\<lambda>a b. accounted c' b = accounted c' a"])
     (simp_all add: save_bucket_accounted)

lemma save_bucket_total_mono:
  "save_bucket clear w c s = (e, s') \<Longrightarrow> total c' s \<le> total c' s'"
  by (cases e) (simp_all add: save_bucket_None save_bucket_Some len_def)

lemma save_buckets_total_mono:
  "save_buckets clear w cs s = (e, s') \<Longrightarrow> total c' s \<le> total c' s'"
  by (erule save_buckets_rel [where R = "\<lambda>a b. total c' a \<le> total c' b"])
     (simp_all add: save_bucket_total_mono)

lemma save_buckets_stored:
  "save_buckets True w cs s = (None, s') \<Longrightarrow> stored c' s' = stored c' s"
  by (erule save_buckets_rel_None [where R = "\<lambda>a b. stored c' b = stored c' a"])
     (simp_all add: stored_def save_bucket_None)

lemma sublist_line_lines_text: "p \<in> set b \<Longrightarrow> sublist (p @ [newline]) (lines_text b)"
proof (induction b)
  case Nil
  then show ?case by simp
next
  case (Cons q b)
  show ?case
  proof (cases "p = q")
    case True
    have "sublist (q @ [newline]) ((q @ [newline]) @ lines_text b)"
      by (rule sublist_append_rightI)
    with True show ?thesis by simp
  next
    case False
    with Cons have "sublist (p @ [newline]) (lines_text b)" by simp
    then have "sublist (p @ [newline]) ((q @ [newline]) @ lines_text b)"
      by (meson sublist_order.order_trans sublist_append_leftI)
    then show ?thesis by simp
  qed
qed

lemma sublist_grow: "sublist x f \<Longrightarrow> sublist x (f @ g)"
  by (meson sublist_order.order_trans sublist_append_rightI)

lemma save_bucket_held:
  assumes "save_bucket clear w c s = (e, s')" and "held c' p s"
  shows "held c' p s'"
proof (cases e)
  case None
  note r = save_bucket_None [OF assms(1) [unfolded None]]
  show ?thesis
  proof (cases "c' = c")
    case True
    have "sublist (p @ [newline]) (out_files s c @ lines_text (bucket c s))"
    proof (cases "p \<in> set (bucket c s)")
      case True
      then have "sublist (p @ [newline]) (lines_text (bucket c s))"
        by (rule sublist_line_lines_text)
      then show ?thesis
        by (meson sublist_order.order_trans sublist_append_leftI)
    next
      case False
      with assms(2) \<open>c' = c\<close> have "sublist (p @ [newline]) (out_files s c)"
        by (simp add: held_def)
      then show ?thesis by (rule sublist_grow)
    qed
    with True show ?thesis by (simp add: held_def r(1))
  next
    case False
    with assms(2) show ?thesis by (simp add: held_def r)
  qed
next
  case (Some x)
  note r = save_bucket_Some [OF assms(1) [unfolded Some]]
  from r(3) obtain n where n: "out_files s' c = out_files s c @ take n (bucket_text (bucket c s))"
    by blast
  show ?thesis
  proof (cases "c' = c")
    case True
    with assms(2) n r(5) [of c] show ?thesis
      by (auto simp: held_def intro: sublist_grow)
  next
    case False
    with assms(2) r(4) [of c'] r(5) [of c'] show ?thesis by (simp add: held_def)
  qed
qed

lemma save_buckets_held:
  "save_buckets clear w cs s = (e, s') \<Longrightarrow> held c' p s \<Longrightarrow> held c' p s'"
proof -
  assume run: "save_buckets clear w cs s = (e, s')" and h: "held c' p s"
  have "held c' p s \<longrightarrow> held c' p s'"
    by (rule save_buckets_rel [OF run, where R = "\<lambda>a b. held c' p a \<longrightarrow> held c' p b"])
       (auto intro: save_bucket_held)
  with h show ?thesis by simp
qed

lemma save_buckets_writable:
  assumes "\<forall>c \<in> set cs. w c = Written" and "distinct cs"
  shows "\<exists>s'. save_buckets clear w cs s = (None, s')
     \<and> (\<forall>c. out_files s' c
            = (if c \<in> set cs then out_files s c @ lines_text (bucket c s) else out_files s c))
     \<and> (\<forall>c. total c s' = (if c \<in> set cs then total c s + len (bucket c s) else total c s))
     \<and> (\<forall>c. bucket c s' = (if c \<in> set cs \<and> clear then [] else bucket c s))"
  using assms
proof (induction cs arbitrary: s)
  case Nil
  then show ?case by simp
next
  case (Cons c cs)
  from Cons.prems obtain s1 where st: "save_bucket clear w c s = (None, s1)"
    using save_bucket_writable [of w c clear s] by auto
  from Cons.prems have "\<forall>c \<in> set cs. w c = Written" "distinct cs" "c \<notin> set cs" by auto
  from Cons.IH [OF this(1,2), of s1] obtain s' where
    r: "save_buckets clear w cs s1 = (None, s')"
    and f: "\<And>d. out_files s' d
               = (if d \<in> set cs then out_files s1 d @ lines_text (bucket d s1) else out_files s1 d)"
    and t: "\<And>d. total d s' = (if d \<in> set cs then total d s1 + len (bucket d s1) else total d s1)"
    and b: "\<And>d. bucket d s' = (if d \<in> set cs \<and> clear then [] else bucket d s1)"
    by blast
  have "save_buckets clear w (c # cs) s = (None, s')" using st r by simp
  moreover have "\<forall>d. out_files s' d
      = (if d \<in> set (c # cs) then out_files s d @ lines_text (bucket d s) else out_files s d)"
    using \<open>c \<notin> set cs\<close> by (auto simp: f save_bucket_None [OF st])
  moreover have "\<forall>d. total d s' = (if d \<in> set (c # cs) then total d s + len (bucket d s) else total d s)"
    using \<open>c \<notin> set cs\<close> by (auto simp: t save_bucket_None [OF st])
  moreover have "\<forall>d. bucket d s' = (if d \<in> set (c # cs) \<and> clear then [] else bucket d s)"
    using \<open>c \<notin> set cs\<close> by (auto simp: b save_bucket_None [OF st])
  ultimately show ?case by blast
qed

text \<open>
  A drain that raises: the bucket whose write failed is as it was, its file has a prefix of
  its text more, and the files of the categories after it in the order are untouched.
\<close>

lemma save_buckets_failed:
  "save_buckets clear w cs s = (Some e, s') \<Longrightarrow> distinct cs \<Longrightarrow>
     e = OSError
     \<and> (\<exists>pre c post n. cs = pre @ c # post \<and> w c = Fails n
           \<and> bucket c s' = bucket c s \<and> bucket c s \<noteq> []
           \<and> out_files s' c = out_files s c @ take n (bucket_text (bucket c s))
           \<and> (\<forall>d \<in> set post. out_files s' d = out_files s d \<and> bucket d s' = bucket d s
                                \<and> total d s' = total d s))"
proof (induction cs arbitrary: s)
  case Nil
  then show ?case by simp
next
  case (Cons c cs)
  obtain e1 s1 where st: "save_bucket clear w c s = (e1, s1)" by fastforce
  show ?case
  proof (cases e1)
    case None
    with Cons.prems st have r: "save_buckets clear w cs s1 = (Some e, s')" by simp
    from Cons.prems have d: "distinct cs" "c \<notin> set cs" by simp_all
    from Cons.IH [OF r d(1)] obtain pre c' post n where e: "e = OSError"
      and sp: "cs = pre @ c' # post" and f: "w c' = Fails n"
      and b: "bucket c' s' = bucket c' s1" "bucket c' s1 \<noteq> []"
      and o: "out_files s' c' = out_files s1 c' @ take n (bucket_text (bucket c' s1))"
      and p: "\<forall>d \<in> set post. out_files s' d = out_files s1 d \<and> bucket d s' = bucket d s1
                                \<and> total d s' = total d s1"
      by blast
    note n1 = save_bucket_None [OF st [unfolded None]]
    from sp d(2) have ne: "c' \<noteq> c" "\<forall>d \<in> set post. d \<noteq> c" by auto
    have "c # cs = (c # pre) @ c' # post" using sp by simp
    moreover have "bucket c' s' = bucket c' s" "bucket c' s \<noteq> []"
      "out_files s' c' = out_files s c' @ take n (bucket_text (bucket c' s))"
      using b o ne(1) by (simp_all add: n1)
    moreover have "\<forall>d \<in> set post. out_files s' d = out_files s d \<and> bucket d s' = bucket d s
                                \<and> total d s' = total d s"
      using p ne(2) by (simp add: n1)
    ultimately show ?thesis using e f by blast
  next
    case (Some x)
    with Cons.prems st have "x = e" "s1 = s'" by simp_all
    with st Some have r: "save_bucket clear w c s = (Some e, s')" by simp
    note f = save_bucket_Some [OF r]
    from f(3) obtain n where n: "w c = Fails n"
      "out_files s' c = out_files s c @ take n (bucket_text (bucket c s))"
      by blast
    have "c # cs = [] @ c # cs" by simp
    moreover have "\<forall>d \<in> set cs. out_files s' d = out_files s d \<and> bucket d s' = bucket d s
                                \<and> total d s' = total d s"
    proof
      fix d assume "d \<in> set cs"
      with Cons.prems(2) have "d \<noteq> c" by auto
      then show "out_files s' d = out_files s d \<and> bucket d s' = bucket d s
                   \<and> total d s' = total d s"
        using f(4) [of d] f(5) [of d] f(6) [of d] by simp
    qed
    ultimately show ?thesis using f(1) f(2) f(5) [of c] n by blast
  qed
qed

lemma in_drain_order: "c \<in> set drain_order"
  by (cases c) (simp_all add: drain_order_def)

lemma distinct_drain_order: "distinct drain_order"
  by (simp add: drain_order_def)

lemma out_files_frame [simp]:
  "stored c (s\<lparr>console := ms\<rparr>) = stored c s"
  "stored c (s\<lparr>last_save_count := n\<rparr>) = stored c s"
  "stored c (s\<lparr>probe_log := pl\<rparr>) = stored c s"
  "stored c (s\<lparr>checked_proxies := n\<rparr>) = stored c s"
  "accounted c (s\<lparr>console := ms\<rparr>) = accounted c s"
  "accounted c (s\<lparr>last_save_count := n\<rparr>) = accounted c s"
  "accounted c (s\<lparr>probe_log := pl\<rparr>) = accounted c s"
  "accounted c (s\<lparr>checked_proxies := n\<rparr>) = accounted c s"
  "held c p (s\<lparr>console := ms\<rparr>) = held c p s"
  "held c p (s\<lparr>last_save_count := n\<rparr>) = held c p s"
  "held c p (s\<lparr>probe_log := pl\<rparr>) = held c p s"
  "held c p (s\<lparr>checked_proxies := n\<rparr>) = held c p s"
  by (simp_all add: stored_def accounted_def held_def)

lemma scalars_config: "scalars a = scalars b \<Longrightarrow> config a = config b"
  by (simp add: scalars_def config_def)

lemma save_intermediate_results_cases:
  assumes "save_intermediate_results w s = (e, s')"
  obtains s1 where "save_buckets True w drain_order s = (e, s1)"
    and "s' = s1 \<or> (e = None \<and> s' = s1\<lparr> console := console s1 @ [SavedIntermediate (checked_proxies s1)],
                        last_save_count := checked_proxies s1 \<rparr>)"
proof -
  obtain e1 s1 where sb: "save_buckets True w drain_order s = (e1, s1)" by fastforce
  with assms have "e1 = e"
    by (cases e1) (auto simp: save_intermediate_results_def)
  moreover have "s' = s1 \<or> (e = None \<and> s' = s1\<lparr> console := console s1 @ [SavedIntermediate (checked_proxies s1)],
                        last_save_count := checked_proxies s1 \<rparr>)"
    using assms sb by (cases e1) (auto simp: save_intermediate_results_def)
  ultimately show ?thesis using sb that by blast
qed

lemma save_intermediate_results_effects:
  assumes "save_intermediate_results w s = (e, s')"
  shows "accounted c s' = accounted c s"
    and "total c s \<le> total c s'"
    and "config s' = config s"
    and "held c p s \<Longrightarrow> held c p s'"
    and "e = None \<Longrightarrow> stored c s' = stored c s"
proof -
  from assms obtain s1 where sb: "save_buckets True w drain_order s = (e, s1)"
    and s': "s' = s1 \<or> (e = None \<and> s' = s1\<lparr> console := console s1 @ [SavedIntermediate (checked_proxies s1)],
                        last_save_count := checked_proxies s1 \<rparr>)"
    by (rule save_intermediate_results_cases)
  from s' show "accounted c s' = accounted c s"
    using save_buckets_accounted [OF sb, of c] by auto
  from s' show "total c s \<le> total c s'"
    using save_buckets_total_mono [OF sb, of c] by auto
  from s' show "config s' = config s"
    using scalars_config [OF save_buckets_scalars [OF sb]] by (auto simp: config_def)
  from s' show "held c p s \<Longrightarrow> held c p s'"
    using save_buckets_held [OF sb, of c p] by auto
  from s' show "e = None \<Longrightarrow> stored c s' = stored c s"
    using save_buckets_stored [of w drain_order s s1 c] sb by auto
qed

lemma bucket_append_fields [simp]:
  "checked_proxies (bucket_append c p s) = checked_proxies s"
  "last_save_count (bucket_append c p s) = last_save_count s"
  "save_interval (bucket_append c p s) = save_interval s"
  "total_proxies (bucket_append c p s) = total_proxies s"
  "max_workers (bucket_append c p s) = max_workers s"
  "timeout (bucket_append c p s) = timeout s"
  "probe_log (bucket_append c p s) = probe_log s"
  "console (bucket_append c p s) = console s"
  by (cases c; simp)+

declare bucket_append.simps [simp del] bucket_clear.simps [simp del] total_add.simps [simp del]

lemma record_results_bucket:
  "bucket c (record_results r s) = bucket c s @ (if placed c r then [res_proxy r] else [])"
  by (cases c; simp add: record_results_def Let_def del: bucket.simps)

lemma record_results_fields:
  "total c (record_results r s) = total c s"
  "out_files (record_results r s) = out_files s"
  "checked_proxies (record_results r s) = checked_proxies s + 1"
  "last_save_count (record_results r s) = last_save_count s"
  "save_interval (record_results r s) = save_interval s"
  "total_proxies (record_results r s) = total_proxies s"
  "max_workers (record_results r s) = max_workers s"
  "timeout (record_results r s) = timeout s"
  "probe_log (record_results r s) = probe_log s"
  "console (record_results r s) = console s"
  by (simp_all add: record_results_def Let_def)

lemma probes_outcome:
  "test_http_proxy net p s = (res_http (outcome net p), invoked HTTP p s)"
  "test_https_proxy net p s = (res_https (outcome net p), invoked HTTPS p s)"
  "test_socks4_proxy net p s = (res_socks4 (outcome net p), invoked SOCKS4 p s)"
  "test_socks5_proxy net p s = (res_socks5 (outcome net p), invoked SOCKS5 p s)"
  by (simp_all add: test_http_proxy_def test_https_proxy_def test_socks4_proxy_def
      test_socks5_proxy_def outcome_def)

lemma outcome_fields:
  "\<lparr> res_proxy = p, res_http = res_http (outcome net p), res_https = res_https (outcome net p),
     res_socks4 = res_socks4 (outcome net p), res_socks5 = res_socks5 (outcome net p) \<rparr>
   = outcome net p"
  by (simp add: outcome_def)

lemma invoked_four:
  "invoked SOCKS5 p (invoked SOCKS4 p (invoked HTTPS p (invoked HTTP p s)))
   = s\<lparr> probe_log := probe_log s @ probe_calls p \<rparr>"
  by (simp add: invoked_def probe_calls_def)

lemma check_proxy_unfold:
  "check_proxy net w p s =
     (case (if checked_proxies (after_record net p s) - last_save_count (after_record net p s)
                \<ge> save_interval (after_record net p s)
            then save_intermediate_results w (after_record net p s)
            else (None, after_record net p s)) of
        (Some e, s6) \<Rightarrow> (Inl e, s6)
      | (None, s6) \<Rightarrow>
          if total_proxies s6 = 0 then (Inl ZeroDivisionError, s6)
          else (Inr (outcome net p), s6))"
  by (simp only: check_proxy_def probes_outcome prod.case outcome_fields invoked_four Let_def
      after_record_def)

lemma after_record_effects:
  "stored c (after_record net p s)
     = stored c s @ (if placed c (outcome net p) then p @ [newline] else [])"
  "accounted c (after_record net p s) = accounted c s + (if placed c (outcome net p) then 1 else 0)"
  "out_files (after_record net p s) = out_files s"
  "total c (after_record net p s) = total c s"
  "config (after_record net p s)
     = (timeout s, max_workers s, total_proxies s, checked_proxies s + 1, save_interval s,
        probe_log s @ probe_calls p)"
  "bucket c (after_record net p s) = bucket c s @ (if placed c (outcome net p) then [p] else [])"
  "checked_proxies (after_record net p s) = checked_proxies s + 1"
  "last_save_count (after_record net p s) = last_save_count s"
  "save_interval (after_record net p s) = save_interval s"
  by (simp_all add: after_record_def stored_def accounted_def config_def len_def
      record_results_bucket record_results_fields outcome_def)

lemma after_record_held:
  "held c q s \<Longrightarrow> held c q (after_record net p s)"
  "placed c (outcome net p) \<Longrightarrow> held c p (after_record net p s)"
  by (auto simp: held_def after_record_effects)

text \<open>
  The result of \<^verbatim>\<open>check_proxy\<close>: the state after the appends when no drain is due, the
  result of the drain otherwise; OSError exactly when the drain raises.
\<close>

lemma check_proxy_state:
  assumes "check_proxy net w p s = (r, s')"
  shows "(s' = after_record net p s \<and> r \<noteq> Inl OSError)
         \<or> (\<exists>e. save_intermediate_results w (after_record net p s) = (e, s')
                  \<and> (r = Inl OSError \<longleftrightarrow> e \<noteq> None))"
proof -
  have "e = OSError" if "save_intermediate_results w (after_record net p s) = (Some e, s'')"
    for e s''
  proof -
    from that obtain s1 where "save_buckets True w drain_order (after_record net p s) = (Some e, s1)"
      by (rule save_intermediate_results_cases)
    from save_buckets_failed [OF this distinct_drain_order] show ?thesis by simp
  qed
  with assms show ?thesis
    unfolding check_proxy_unfold
    by (auto split: if_splits prod.splits option.splits)
qed

lemma check_proxy_effects:
  assumes "check_proxy net w p s = (r, s')"
  shows "accounted c s' = accounted c s + (if placed c (outcome net p) then 1 else 0)"
    and "total c s \<le> total c s'"
    and "config s' = (timeout s, max_workers s, total_proxies s, checked_proxies s + 1,
                      save_interval s, probe_log s @ probe_calls p)"
    and "held c q s \<Longrightarrow> held c q s'"
    and "placed c (outcome net p) \<Longrightarrow> held c p s'"
    and "r \<noteq> Inl OSError \<Longrightarrow>
           stored c s' = stored c s @ (if placed c (outcome net p) then p @ [newline] else [])"
proof -
  note st = check_proxy_state [OF assms]
  from st show "accounted c s' = accounted c s + (if placed c (outcome net p) then 1 else 0)"
    by (auto simp: after_record_effects save_intermediate_results_effects(1))
  from st show "total c s \<le> total c s'"
    using save_intermediate_results_effects(2) [of w "after_record net p s" _ s' c]
    by (auto simp: after_record_effects)
  from st show "config s' = (timeout s, max_workers s, total_proxies s, checked_proxies s + 1,
                      save_interval s, probe_log s @ probe_calls p)"
    by (auto simp: after_record_effects save_intermediate_results_effects(3))
  from st show "held c q s \<Longrightarrow> held c q s'"
    by (auto intro: after_record_held(1) save_intermediate_results_effects(4))
  from st show "placed c (outcome net p) \<Longrightarrow> held c p s'"
    by (auto intro: after_record_held(2) save_intermediate_results_effects(4))
  from st show "r \<noteq> Inl OSError \<Longrightarrow>
           stored c s' = stored c s @ (if placed c (outcome net p) then p @ [newline] else [])"
    by (auto simp: after_record_effects save_intermediate_results_effects(5))
qed

lemma save_intermediate_results_writable:
  assumes "\<forall>c. w c = Written"
  shows "\<exists>s'. save_intermediate_results w s = (None, s')
      \<and> (\<forall>c. out_files s' c = stored c s) \<and> (\<forall>c. total c s' = accounted c s)
      \<and> (\<forall>c. bucket c s' = []) \<and> last_save_count s' = checked_proxies s"
proof -
  from assms have w: "\<forall>c \<in> set drain_order. w c = Written" by simp
  from save_buckets_writable [OF w distinct_drain_order, of True s]
  obtain s' where r: "save_buckets True w drain_order s = (None, s')"
    and f: "\<forall>c. out_files s' c = out_files s c @ lines_text (bucket c s)"
    and t: "\<forall>c. total c s' = total c s + len (bucket c s)"
    and b: "\<forall>c. bucket c s' = []"
    by (auto simp: in_drain_order)
  from save_buckets_scalars [OF r] have "checked_proxies s' = checked_proxies s"
    by (simp add: scalars_def)
  with r f t b show ?thesis
    by (simp add: save_intermediate_results_def stored_def accounted_def)
qed

lemma check_proxy_writable:
  assumes "\<forall>c. w c = Written" and "check_proxy net w p s = (r, s')"
  shows "r \<noteq> Inl OSError"
proof -
  from save_intermediate_results_writable [OF assms(1), of "after_record net p s"]
  obtain s1 where "save_intermediate_results w (after_record net p s) = (None, s1)" by blast
  with check_proxy_state [OF assms(2)] show ?thesis by auto
qed

section \<open>The run, candidate by candidate\<close>

lemma config_console [simp]: "config (s\<lparr>console := ms\<rparr>) = config s"
  by (simp add: config_def)

lemma check_all_step:
  "\<exists>r s1 ms. check_proxy net (fs (checked_proxies s + 1)) p s = (r, s1)
      \<and> check_all net fs (p # ps) s = check_all net fs ps (s1\<lparr>console := ms\<rparr>)"
proof -
  obtain r s1 where cp: "check_proxy net (fs (checked_proxies s + 1)) p s = (r, s1)"
    by fastforce
  show ?thesis
  proof (cases r)
    case (Inl e)
    with cp show ?thesis by auto
  next
    case (Inr res)
    with cp have "check_all net fs (p # ps) s = check_all net fs ps (s1\<lparr>console := console s1\<rparr>)"
      by simp
    with cp show ?thesis by blast
  qed
qed

lemma check_all_accounted:
  "accounted c (check_all net fs ps s)
     = accounted c s + len (filter (\<lambda>p. placed c (outcome net p)) ps)"
proof (induction ps arbitrary: s)
  case Nil
  then show ?case by (simp add: len_def)
next
  case (Cons p ps)
  obtain r s1 ms where cp: "check_proxy net (fs (checked_proxies s + 1)) p s = (r, s1)"
    and st: "check_all net fs (p # ps) s = check_all net fs ps (s1\<lparr>console := ms\<rparr>)"
    using check_all_step by blast
  show ?case
    unfolding st Cons.IH by (simp add: check_proxy_effects(1) [OF cp] len_def)
qed

lemma check_all_total_mono:
  "total c s \<le> total c (check_all net fs ps s)"
proof (induction ps arbitrary: s)
  case Nil
  then show ?case by simp
next
  case (Cons p ps)
  obtain r s1 ms where cp: "check_proxy net (fs (checked_proxies s + 1)) p s = (r, s1)"
    and st: "check_all net fs (p # ps) s = check_all net fs ps (s1\<lparr>console := ms\<rparr>)"
    using check_all_step by blast
  have "total c s \<le> total c (s1\<lparr>console := ms\<rparr>)"
    using check_proxy_effects(2) [OF cp, of c] by simp
  also have "\<dots> \<le> total c (check_all net fs ps (s1\<lparr>console := ms\<rparr>))"
    by (rule Cons.IH)
  finally show ?case unfolding st .
qed

lemma check_all_config:
  "config (check_all net fs ps s)
     = (timeout s, max_workers s, total_proxies s, checked_proxies s + len ps, save_interval s,
        probe_log s @ concat (map probe_calls ps))"
proof (induction ps arbitrary: s)
  case Nil
  then show ?case by (simp add: config_def len_def)
next
  case (Cons p ps)
  obtain r s1 ms where cp: "check_proxy net (fs (checked_proxies s + 1)) p s = (r, s1)"
    and st: "check_all net fs (p # ps) s = check_all net fs ps (s1\<lparr>console := ms\<rparr>)"
    using check_all_step by blast
  have c1: "config (s1\<lparr>console := ms\<rparr>) = (timeout s, max_workers s, total_proxies s,
      checked_proxies s + 1, save_interval s, probe_log s @ probe_calls p)"
    using check_proxy_effects(3) [OF cp] by simp
  then have f: "timeout (s1\<lparr>console := ms\<rparr>) = timeout s"
    "max_workers (s1\<lparr>console := ms\<rparr>) = max_workers s"
    "total_proxies (s1\<lparr>console := ms\<rparr>) = total_proxies s"
    "checked_proxies (s1\<lparr>console := ms\<rparr>) = checked_proxies s + 1"
    "save_interval (s1\<lparr>console := ms\<rparr>) = save_interval s"
    "probe_log (s1\<lparr>console := ms\<rparr>) = probe_log s @ probe_calls p"
    by (simp_all add: config_def)
  show ?case
    unfolding st Cons.IH f by (simp add: len_def)
qed

text \<open>
  Whatever the file system does, an endpoint that is held stays held, and every candidate
  recorded is held for each category its outcome places it in.
\<close>

lemma check_all_held_mono:
  "held c q s \<Longrightarrow> held c q (check_all net fs ps s)"
proof (induction ps arbitrary: s)
  case Nil
  then show ?case by simp
next
  case (Cons p ps)
  obtain r s1 ms where cp: "check_proxy net (fs (checked_proxies s + 1)) p s = (r, s1)"
    and st: "check_all net fs (p # ps) s = check_all net fs ps (s1\<lparr>console := ms\<rparr>)"
    using check_all_step by blast
  from Cons.prems have "held c q (s1\<lparr>console := ms\<rparr>)"
    using check_proxy_effects(4) [OF cp, of c q] by simp
  then show ?case unfolding st by (rule Cons.IH)
qed

lemma check_all_held:
  "q \<in> set ps \<Longrightarrow> placed c (outcome net q) \<Longrightarrow> held c q (check_all net fs ps s)"
proof (induction ps arbitrary: s)
  case Nil
  then show ?case by simp
next
  case (Cons p ps)
  obtain r s1 ms where cp: "check_proxy net (fs (checked_proxies s + 1)) p s = (r, s1)"
    and st: "check_all net fs (p # ps) s = check_all net fs ps (s1\<lparr>console := ms\<rparr>)"
    using check_all_step by blast
  show ?case
  proof (cases "q = p")
    case True
    with Cons.prems(2) have "held c q (s1\<lparr>console := ms\<rparr>)"
      using check_proxy_effects(5) [OF cp, of c] by simp
    then show ?thesis unfolding st by (rule check_all_held_mono)
  next
    case False
    with Cons.prems have "q \<in> set ps" by simp
    from Cons.IH [OF this Cons.prems(2)] show ?thesis unfolding st .
  qed
qed

text \<open>When every write succeeds, the text held for a category grows by the lines recorded.\<close>

lemma check_all_stored:
  assumes "\<forall>n c. fs n c = Written"
  shows "stored c (check_all net fs ps s)
           = stored c s @ lines_text (filter (\<lambda>p. placed c (outcome net p)) ps)"
proof (induction ps arbitrary: s)
  case Nil
  then show ?case by simp
next
  case (Cons p ps)
  obtain r s1 ms where cp: "check_proxy net (fs (checked_proxies s + 1)) p s = (r, s1)"
    and st: "check_all net fs (p # ps) s = check_all net fs ps (s1\<lparr>console := ms\<rparr>)"
    using check_all_step by blast
  from assms have "\<forall>c. fs (checked_proxies s + 1) c = Written" by simp
  from check_proxy_writable [OF this cp] have "r \<noteq> Inl OSError" .
  from check_proxy_effects(6) [OF cp this, of c] show ?case
    unfolding st Cons.IH by simp
qed

section \<open>Loading: the candidate set\<close>

lemma all_lines_map_filter:
  "all_lines ls = map strip (filter (\<lambda>l. strip l \<noteq> []) ls)"
  by (induction ls) (simp_all add: all_lines_def)

lemma set_all_lines: "set (all_lines ls) = strip ` set ls - {[]}"
  by (auto simp: all_lines_map_filter)

text \<open>
  C7. For any sequence of lines, the candidates that \<^verbatim>\<open>load_proxies\<close> returns are
  the distinct strings obtained by trimming each line and dropping the empty results, each
  once: their number is the number of these strings. The report (and \<^verbatim>\<open>total_proxies\<close>)
  gives the number of non-empty trimmed lines as the original count, the number of distinct
  ones as the unique count, and their difference as the count removed.
\<close>

theorem load_proxies_distinct_trimmed:
  "length (snd (load_proxies (Some ls) self)) = card (strip ` set ls - {[]})
   \<and> distinct (snd (load_proxies (Some ls) self))
   \<and> set (snd (load_proxies (Some ls) self)) = strip ` set ls - {[]}
   \<and> total_proxies (fst (load_proxies (Some ls) self)) = int (card (strip ` set ls - {[]}))
   \<and> console (fst (load_proxies (Some ls) self))
       = console self @
         [Loaded (len (filter (\<lambda>l. strip l \<noteq> []) ls))
                 (int (card (strip ` set ls - {[]})))
                 (len (filter (\<lambda>l. strip l \<noteq> []) ls) - int (card (strip ` set ls - {[]})))]"
proof -
  have n: "length (remdups (all_lines ls)) = card (strip ` set ls - {[]})"
    by (simp add: length_remdups_card_conv set_all_lines)
  have l: "length (all_lines ls) = length (filter (\<lambda>l. strip l \<noteq> []) ls)"
    by (simp add: all_lines_map_filter)
  show ?thesis
    by (simp add: load_proxies_def Let_def n l set_all_lines len_def)
qed

section \<open>Drains and the whole run\<close>

lemma save_results_buckets:
  "save_results w s = save_buckets False w drain_order s"
proof (cases "\<forall>c. bucket c s = []")
  case True
  have "\<And>cs. save_buckets False w cs s = (None, s)"
  proof -
    fix cs show "save_buckets False w cs s = (None, s)"
      using True by (induction cs) (simp_all add: save_bucket_def)
  qed
  moreover have "save_results w s = (None, s)"
    using True [THEN spec, of Http] True [THEN spec, of Https] True [THEN spec, of Socks4]
      True [THEN spec, of Socks5] True [THEN spec, of Failed]
    by (simp add: save_results_def)
  ultimately show ?thesis by simp
next
  case False
  then obtain c where "bucket c s \<noteq> []" by blast
  then show ?thesis by (cases c) (simp_all add: save_results_def)
qed

lemma save_results_writable:
  "\<exists>s'. save_results always_writable s = (None, s')
      \<and> (\<forall>c. out_files s' c = stored c s) \<and> (\<forall>c. total c s' = accounted c s)
      \<and> (\<forall>c. bucket c s' = bucket c s) \<and> scalars s' = scalars s"
proof -
  have w: "\<forall>c \<in> set drain_order. always_writable c = Written" by (simp add: always_writable_def)
  from save_buckets_writable [OF w distinct_drain_order, of False s]
  obtain s' where r: "save_buckets False always_writable drain_order s = (None, s')"
    and f: "\<forall>c. out_files s' c = out_files s c @ lines_text (bucket c s)"
    and t: "\<forall>c. total c s' = total c s + len (bucket c s)"
    and b: "\<forall>c. bucket c s' = bucket c s"
    by (auto simp: in_drain_order)
  from r f t b save_buckets_scalars [OF r] show ?thesis
    by (simp add: save_results_buckets stored_def accounted_def)
qed

lemma snd_load_proxies: "snd (load_proxies src self) = candidates src"
  by (simp add: load_proxies_def candidates_def Let_def split: option.splits)

lemma fst_load_proxies:
  "stored c (fst (load_proxies src self)) = stored c self"
  "accounted c (fst (load_proxies src self)) = accounted c self"
  "total c (fst (load_proxies src self)) = total c self"
  "bucket c (fst (load_proxies src self)) = bucket c self"
  "out_files (fst (load_proxies src self)) = out_files self"
  "checked_proxies (fst (load_proxies src self)) = checked_proxies self"
  "max_workers (fst (load_proxies src self)) = max_workers self"
  "save_interval (fst (load_proxies src self)) = save_interval self"
  "candidates src \<noteq> [] \<Longrightarrow> total_proxies (fst (load_proxies src self)) = len (candidates src)"
  by (simp_all add: load_proxies_def candidates_def Let_def stored_def accounted_def
      split: option.splits)

lemma run_check_unfold:
  "run_check net fs fs_final sched src self =
     (if candidates src = [] then (None, fst (load_proxies src self))
      else display_results fs_final (loop_state net fs sched src self))"
  by (simp add: run_check_def loop_state_def split_beta snd_load_proxies fst_load_proxies)

lemma loop_state_config:
  "candidates src \<noteq> [] \<Longrightarrow> total_proxies (loop_state net fs sched src self) = len (candidates src)"
  "checked_proxies (loop_state net fs sched src self) = checked_proxies self + len (candidates src)"
  "save_interval (loop_state net fs sched src self) = save_interval self"
  "max_workers (loop_state net fs sched src self) = max_workers self"
  using check_all_config [of net fs "sort_key (sched (max_workers self)) (candidates src)"
      "fst (load_proxies src self)"]
  by (simp_all add: loop_state_def config_def fst_load_proxies len_def)

lemma placements_sum:
  "len (recorded_in net Http ps) + len (recorded_in net Https ps) + len (recorded_in net Socks4 ps)
     + len (recorded_in net Socks5 ps) + len (recorded_in net Failed ps)
   = sum_list (map (\<lambda>p. placements (outcome net p)) ps)"
  by (induction ps) (simp_all add: recorded_in_def placements_def len_def)

lemma placements_ge_1: "1 \<le> placements r"
  by (simp add: placements_def)

lemma sum_list_placements_ge:
  "len ps \<le> sum_list (map (\<lambda>p. placements (outcome net p)) ps)"
proof (induction ps)
  case Nil
  then show ?case by (simp add: len_def)
next
  case (Cons p ps)
  then show ?case using placements_ge_1 [of "outcome net p"] by (simp add: len_def)
qed

lemma sum_list_placements_eq:
  "\<forall>p \<in> set ps. placements (outcome net p) = 1 \<Longrightarrow>
     sum_list (map (\<lambda>p. placements (outcome net p)) ps) = len ps"
  by (induction ps) (simp_all add: len_def)

lemma sum_list_sort_key:
  "sum_list (map f (sort_key k ps)) = sum_list (map (f :: 'a \<Rightarrow> int) ps)"
proof -
  have "mset (map f (sort_key k ps)) = mset (map f ps)" by simp
  then show ?thesis by (metis sum_mset_sum_list)
qed

lemma stored_ProxyChecker [simp]:
  "stored c ((ProxyChecker t w)\<lparr>save_interval := k\<rparr>) = []"
  "accounted c ((ProxyChecker t w)\<lparr>save_interval := k\<rparr>) = 0"
  "checked_proxies ((ProxyChecker t w)\<lparr>save_interval := k\<rparr>) = 0"
  "max_workers ((ProxyChecker t w)\<lparr>save_interval := k\<rparr>) = w"
  by (cases c; simp add: stored_def accounted_def ProxyChecker_def len_def)+

lemma loop_state_stored:
  "\<forall>n c. fs n c = Written \<Longrightarrow>
   stored c (loop_state net fs sched src self)
     = stored c self
       @ lines_text (recorded_in net c (sort_key (sched (max_workers self)) (candidates src)))"
  by (simp add: loop_state_def check_all_stored fst_load_proxies recorded_in_def)

lemma loop_state_accounted:
  "accounted c (loop_state net fs sched src self)
     = accounted c self + len (recorded_in net c (sort_key (sched (max_workers self)) (candidates src)))"
  by (simp add: loop_state_def check_all_accounted fst_load_proxies recorded_in_def)

lemma display_results_writable:
  assumes "total_proxies s \<noteq> 0"
  shows "\<exists>s'. display_results always_writable s = (None, s')
      \<and> (\<forall>c. out_files s' c = stored c s) \<and> (\<forall>c. total c s' = accounted c s)
      \<and> (\<forall>c. bucket c s' = bucket c s) \<and> config s' = config s"
proof -
  let ?s = "s\<lparr> console := console s @
                [Summary (total_proxies s) (total_working_http s)
                   (total_working_https s) (total_working_socks4 s)
                   (total_working_socks5 s) (total_failed_proxies s)
                   (success_rate s)] \<rparr>"
  from save_results_writable [of ?s] obtain s' where
    "save_results always_writable ?s = (None, s')"
    "\<forall>c. out_files s' c = stored c ?s" "\<forall>c. total c s' = accounted c ?s"
    "\<forall>c. bucket c s' = bucket c ?s" "scalars s' = scalars ?s"
    by blast
  with assms show ?thesis
    by (simp add: display_results_def scalars_config [of s' ?s])
qed

lemma fresh_checker [simp]:
  "out_files ((ProxyChecker t w)\<lparr>save_interval := k\<rparr>) c = []"
  "total c ((ProxyChecker t w)\<lparr>save_interval := k\<rparr>) = 0"
  "bucket c ((ProxyChecker t w)\<lparr>save_interval := k\<rparr>) = []"
  "out_files (ProxyChecker t w) c = []"
  "total c (ProxyChecker t w) = 0"
  "bucket c (ProxyChecker t w) = []"
  by (cases c; simp add: ProxyChecker_def)+

text \<open>
  The end of a run whose final drain can write, whatever the checkpoint drains met: the
  final state, with the file of each category holding what the loop left in file and
  bucket.
\<close>

lemma run_check_final:
  "\<exists>s'. run_check net fs always_writable sched src ((ProxyChecker t w)\<lparr>save_interval := k\<rparr>)
            = (None, s')
      \<and> (\<forall>c. out_files s' c
             = stored c (loop_state net fs sched src ((ProxyChecker t w)\<lparr>save_interval := k\<rparr>)))
      \<and> (\<forall>c. total c s' = len (recorded_in net c (sort_key (sched w) (candidates src))))
      \<and> checked_proxies s' = len (candidates src)
      \<and> probe_log s' = concat (map probe_calls (sort_key (sched w) (candidates src)))"
proof (cases "candidates src = []")
  case True
  have "probe_log (fst (load_proxies src s)) = probe_log s" for s
    by (cases src) (simp_all add: load_proxies_def Let_def)
  moreover have "probe_log ((ProxyChecker t w)\<lparr>save_interval := k\<rparr>) = []"
    by (simp add: ProxyChecker_def)
  moreover have "loop_state net fs sched src ((ProxyChecker t w)\<lparr>save_interval := k\<rparr>)
      = fst (load_proxies src ((ProxyChecker t w)\<lparr>save_interval := k\<rparr>))"
    using True by (simp add: loop_state_def)
  ultimately show ?thesis using True
    by (simp add: run_check_unfold fst_load_proxies recorded_in_def len_def)
next
  case False
  let ?self = "(ProxyChecker t w)\<lparr>save_interval := k\<rparr>"
  let ?loop = "loop_state net fs sched src ?self"
  have "total_proxies ?loop \<noteq> 0"
    using False by (simp add: loop_state_config len_def)
  from display_results_writable [OF this] obtain s' where
    d: "display_results always_writable ?loop = (None, s')"
    and f: "\<forall>c. out_files s' c = stored c ?loop"
    and t: "\<forall>c. total c s' = accounted c ?loop"
    and c: "config s' = config ?loop"
    by blast
  from c have ch: "checked_proxies s' = checked_proxies ?loop" "probe_log s' = probe_log ?loop"
    by (simp_all add: config_def)
  have l: "probe_log (fst (load_proxies src ?self)) = []"
    by (cases src) (simp_all add: load_proxies_def Let_def ProxyChecker_def)
  have "probe_log ?loop = concat (map probe_calls (sort_key (sched w) (candidates src)))"
    using check_all_config [of net fs "sort_key (sched w) (candidates src)" "fst (load_proxies src ?self)"]
    by (simp add: loop_state_def config_def l fst_load_proxies)
  with ch d f t False show ?thesis
    by (simp add: run_check_unfold loop_state_accounted loop_state_config)
qed

lemma run_check_final_files:
  assumes "\<forall>n c. fs n c = Written"
  shows "out_files (snd (run_check net fs always_writable sched src
                           ((ProxyChecker t w)\<lparr>save_interval := k\<rparr>))) c
           = lines_text (recorded_in net c (sort_key (sched w) (candidates src)))"
  using run_check_final [where net = net and fs = fs and sched = sched and src = src
      and t = t and w = w and k = k]
  by (auto simp: loop_state_stored [OF assms])

subsection \<open>The lines of the text of a bucket\<close>

lemma split_on_not_Nil [simp]: "split_on sep t \<noteq> []"
  by (induction t) (simp_all split: list.splits)

lemma split_on_line:
  "sep \<notin> set p \<Longrightarrow> split_on sep (p @ sep # rest) = p # split_on sep rest"
  by (induction p) auto

lemma text_lines_line:
  "newline \<notin> set p \<Longrightarrow> text_lines (p @ newline # rest) = p # text_lines rest"
  by (simp add: text_lines_def split_on_line Let_def)

lemma text_lines_lines_text:
  "\<forall>p \<in> set ps. newline \<notin> set p \<Longrightarrow> text_lines (lines_text ps) = ps"
  by (induction ps) (simp_all add: text_lines_line, simp add: text_lines_def)

section \<open>Classification\<close>

text \<open>
  C2. For every candidate that \<^verbatim>\<open>check_proxy\<close> records: the endpoint is appended to at
  least one of the four working buckets (http, https, socks4, socks5) or to the failed
  bucket, never to neither and never to both, and to the bucket of a category exactly when
  the outcome places it there. The same holds of the text of each category (file followed
  by bucket) right after the appends, and at the end of the call unless the checkpoint drain
  of the same call fails; in every case the line of the endpoint is then in the bucket or
  in the file of each category that the outcome places it in.
\<close>

theorem classified_working_or_failed:
  assumes "check_proxy net writable p s = (r, s')"
  shows "((bucket Http (record_results (outcome net p) s) = bucket Http s @ [p]
            \<or> bucket Https (record_results (outcome net p) s) = bucket Https s @ [p]
            \<or> bucket Socks4 (record_results (outcome net p) s) = bucket Socks4 s @ [p]
            \<or> bucket Socks5 (record_results (outcome net p) s) = bucket Socks5 s @ [p])
          \<noteq> (bucket Failed (record_results (outcome net p) s) = bucket Failed s @ [p]))
       \<and> (\<forall>c. bucket c (record_results (outcome net p) s)
               = bucket c s @ (if placed c (outcome net p) then [p] else []))
       \<and> (\<forall>c. stored c (after_record net p s)
               = stored c s @ (if placed c (outcome net p) then p @ [newline] else []))
       \<and> (r \<noteq> Inl OSError \<longrightarrow>
            (\<forall>c. stored c s' = stored c s @ (if placed c (outcome net p) then p @ [newline] else [])))
       \<and> (r \<noteq> Inl OSError \<longrightarrow>
            ((stored Http s' = stored Http s @ p @ [newline]
               \<or> stored Https s' = stored Https s @ p @ [newline]
               \<or> stored Socks4 s' = stored Socks4 s @ p @ [newline]
               \<or> stored Socks5 s' = stored Socks5 s @ p @ [newline])
             \<noteq> (stored Failed s' = stored Failed s @ p @ [newline])))
       \<and> (\<forall>c. placed c (outcome net p) \<longrightarrow> held c p s')"
proof -
  have p: "res_proxy (outcome net p) = p" by (simp add: outcome_def)
  have b: "(bucket Http (record_results (outcome net p) s) = bucket Http s @ [p]
            \<or> bucket Https (record_results (outcome net p) s) = bucket Https s @ [p]
            \<or> bucket Socks4 (record_results (outcome net p) s) = bucket Socks4 s @ [p]
            \<or> bucket Socks5 (record_results (outcome net p) s) = bucket Socks5 s @ [p])
          \<noteq> (bucket Failed (record_results (outcome net p) s) = bucket Failed s @ [p])"
    unfolding record_results_bucket p by auto
  have b': "\<forall>c. bucket c (record_results (outcome net p) s)
               = bucket c s @ (if placed c (outcome net p) then [p] else [])"
    by (simp add: record_results_bucket p)
  have a: "\<forall>c. stored c (after_record net p s)
               = stored c s @ (if placed c (outcome net p) then p @ [newline] else [])"
    by (simp add: after_record_effects(1))
  have h: "\<forall>c. placed c (outcome net p) \<longrightarrow> held c p s'"
    using check_proxy_effects(5) [OF assms] by blast
  have st: "r \<noteq> Inl OSError \<longrightarrow>
            (\<forall>c. stored c s' = stored c s @ (if placed c (outcome net p) then p @ [newline] else []))"
    using check_proxy_effects(6) [OF assms] by blast
  have x: "r \<noteq> Inl OSError \<longrightarrow>
            ((stored Http s' = stored Http s @ p @ [newline]
               \<or> stored Https s' = stored Https s @ p @ [newline]
               \<or> stored Socks4 s' = stored Socks4 s @ p @ [newline]
               \<or> stored Socks5 s' = stored Socks5 s @ p @ [newline])
             \<noteq> (stored Failed s' = stored Failed s @ p @ [newline]))"
  proof
    assume "r \<noteq> Inl OSError"
    with st have e: "\<And>c. stored c s' = stored c s @ (if placed c (outcome net p) then p @ [newline] else [])"
      by blast
    show "(stored Http s' = stored Http s @ p @ [newline]
               \<or> stored Https s' = stored Https s @ p @ [newline]
               \<or> stored Socks4 s' = stored Socks4 s @ p @ [newline]
               \<or> stored Socks5 s' = stored Socks5 s @ p @ [newline])
             \<noteq> (stored Failed s' = stored Failed s @ p @ [newline])"
      unfolding e by auto
  qed
  from b b' a st x h show ?thesis by blast
qed

theorem classified_working_or_failed_witness:
  "stored Socks5 (snd (check_proxy stub_net always_writable ''9.9.9.9:1080''
                         ((ProxyChecker 10 50)\<lparr>total_proxies := 2\<rparr>))) = ''9.9.9.9:1080'' @ [newline]
   \<and> stored Failed (snd (check_proxy stub_net always_writable ''9.9.9.9:1080''
                         ((ProxyChecker 10 50)\<lparr>total_proxies := 2\<rparr>))) = []
   \<and> held Socks5 ''9.9.9.9:1080'' (snd (check_proxy stub_net always_writable ''9.9.9.9:1080''
                         ((ProxyChecker 10 50)\<lparr>total_proxies := 2\<rparr>)))
   \<and> stored Failed (snd (check_proxy stub_net always_writable ''5.6.7.8:3128''
                         ((ProxyChecker 10 50)\<lparr>total_proxies := 2\<rparr>))) = ''5.6.7.8:3128'' @ [newline]"
proof -
  let ?s = "(ProxyChecker 10 50)\<lparr>total_proxies := 2\<rparr>"
  have e: "stored c ?s = []" for c
    by (cases c) (simp_all add: stored_def ProxyChecker_def)
  have o1: "placed Socks5 (outcome stub_net ''9.9.9.9:1080'')"
    and o2: "\<not> placed Failed (outcome stub_net ''9.9.9.9:1080'')"
    and o3: "placed Failed (outcome stub_net ''5.6.7.8:3128'')"
    by code_simp+
  have n1: "fst (check_proxy stub_net always_writable ''9.9.9.9:1080'' ?s) \<noteq> Inl OSError"
    and n2: "fst (check_proxy stub_net always_writable ''5.6.7.8:3128'' ?s) \<noteq> Inl OSError"
    by code_simp+
  obtain r1 s1 where c1: "check_proxy stub_net always_writable ''9.9.9.9:1080'' ?s = (r1, s1)"
    by fastforce
  obtain r2 s2 where c2: "check_proxy stub_net always_writable ''5.6.7.8:3128'' ?s = (r2, s2)"
    by fastforce
  from n1 c1 have r1: "r1 \<noteq> Inl OSError" by simp
  from n2 c2 have r2: "r2 \<noteq> Inl OSError" by simp
  note t1 = classified_working_or_failed [OF c1]
  note t2 = classified_working_or_failed [OF c2]
  note st1 = t1 [THEN conjunct2, THEN conjunct2, THEN conjunct2, THEN conjunct1, rule_format, OF r1]
  note st2 = t2 [THEN conjunct2, THEN conjunct2, THEN conjunct2, THEN conjunct1, rule_format, OF r2]
  note h1 = t1 [THEN conjunct2, THEN conjunct2, THEN conjunct2, THEN conjunct2, THEN conjunct2,
      rule_format, OF o1]
  from st1 [of Socks5] st1 [of Failed] st2 [of Failed] h1 o1 o2 o3
  show ?thesis unfolding c1 c2 snd_conv e by simp
qed

section \<open>The probes\<close>

text \<open>
  C4. Each of the four probe functions returns a boolean for every behaviour of the network:
  true exactly when the probe succeeds (HTTP and HTTPS: a response with status 200; SOCKS4
  and SOCKS5: the endpoint splits into two parts, the port parses, and the proxied connect
  and close return), and false whenever the request, the parsing or the connect raises,
  whatever the exception.
\<close>

theorem probes_absorb_every_failure:
  "(fst (test_http_proxy net p s) \<longleftrightarrow> requests_get net test_url (''http://'' @ p) = Response 200)
   \<and> (fst (test_https_proxy net p s)
        \<longleftrightarrow> requests_get net test_url_https (''https://'' @ p) = Response 200)
   \<and> (fst (test_socks4_proxy net p s)
        \<longleftrightarrow> (\<exists>ip port n. split_on CHR '':'' p = [ip, port] \<and> py_int port = Some n
                \<and> socks_connect net SOCKS4 ip n = None))
   \<and> (fst (test_socks5_proxy net p s)
        \<longleftrightarrow> (\<exists>ip port n. split_on CHR '':'' p = [ip, port] \<and> py_int port = Some n
                \<and> socks_connect net SOCKS5 ip n = None))
   \<and> (\<forall>e. requests_get net test_url (''http://'' @ p) = Raises e
          \<longrightarrow> fst (test_http_proxy net p s) = False)
   \<and> (\<forall>e. requests_get net test_url_https (''https://'' @ p) = Raises e
          \<longrightarrow> fst (test_https_proxy net p s) = False)
   \<and> (\<forall>e. socks_try net SOCKS4 p = Inl e \<longrightarrow> fst (test_socks4_proxy net p s) = False)
   \<and> (\<forall>e. socks_try net SOCKS5 p = Inl e \<longrightarrow> fst (test_socks5_proxy net p s) = False)
   \<and> (\<forall>ip port n e. split_on CHR '':'' p = [ip, port] \<and> py_int port = Some n
          \<and> socks_connect net SOCKS4 ip n = Some e \<longrightarrow> fst (test_socks4_proxy net p s) = False)
   \<and> (\<forall>ip port n e. split_on CHR '':'' p = [ip, port] \<and> py_int port = Some n
          \<and> socks_connect net SOCKS5 ip n = Some e \<longrightarrow> fst (test_socks5_proxy net p s) = False)"
proof -
  have http: "\<And>url pu. except_pass (http_try net url pu) \<longleftrightarrow> requests_get net url pu = Response 200"
    by (simp add: except_pass_def http_try_def split: http_reply.splits)
  have socks: "\<And>ver. except_pass (socks_try net ver p)
      \<longleftrightarrow> (\<exists>ip port n. split_on CHR '':'' p = [ip, port] \<and> py_int port = Some n
                \<and> socks_connect net ver ip n = None)"
    by (auto simp: except_pass_def socks_try_def unpack2_def
        split: sum.splits list.splits option.splits)
  show ?thesis
    by (simp add: test_http_proxy_def test_https_proxy_def test_socks4_proxy_def
        test_socks5_proxy_def http socks) (simp add: except_pass_def)
qed

theorem probes_absorb_every_failure_witness:
  "requests_get stub_net test_url (''http://'' @ ''9.9.9.9:1080'') = Raises Timeout
   \<and> fst (test_http_proxy stub_net ''9.9.9.9:1080'' (ProxyChecker 10 50)) = False
   \<and> socks_try stub_net SOCKS4 ''9.9.9.9:1080'' = Inl ConnectionRefused
   \<and> fst (test_socks4_proxy stub_net ''9.9.9.9:1080'' (ProxyChecker 10 50)) = False
   \<and> fst (test_socks5_proxy stub_net ''9.9.9.9:1080'' (ProxyChecker 10 50)) = True
   \<and> socks_try stub_net SOCKS5 ''no-port'' = Inl ValueError
   \<and> fst (test_socks5_proxy stub_net ''no-port'' (ProxyChecker 10 50)) = False"
proof -
  have h1: "requests_get stub_net test_url (''http://'' @ ''9.9.9.9:1080'') = Raises Timeout"
    by code_simp
  have h2: "socks_try stub_net SOCKS4 ''9.9.9.9:1080'' = Inl ConnectionRefused"
    by code_simp
  have h3: "split_on CHR '':'' ''9.9.9.9:1080'' = [''9.9.9.9'', ''1080'']
            \<and> py_int ''1080'' = Some 1080 \<and> socks_connect stub_net SOCKS5 ''9.9.9.9'' 1080 = None"
    by code_simp
  have h4: "socks_try stub_net SOCKS5 ''no-port'' = Inl ValueError"
    by code_simp
  note a = probes_absorb_every_failure [of stub_net "''9.9.9.9:1080''" "ProxyChecker 10 50"]
  note b = probes_absorb_every_failure [of stub_net "''no-port''" "ProxyChecker 10 50"]
  from a h1 have c1: "fst (test_http_proxy stub_net ''9.9.9.9:1080'' (ProxyChecker 10 50)) = False"
    by blast
  from a h2 have c2: "fst (test_socks4_proxy stub_net ''9.9.9.9:1080'' (ProxyChecker 10 50)) = False"
    by blast
  from a h3 have c3: "fst (test_socks5_proxy stub_net ''9.9.9.9:1080'' (ProxyChecker 10 50)) = True"
    by blast
  from b h4 have c4: "fst (test_socks5_proxy stub_net ''no-port'' (ProxyChecker 10 50)) = False"
    by blast
  from h1 h2 h4 c1 c2 c3 c4 show ?thesis by blast
qed

text \<open>
  C3. \<^verbatim>\<open>check_proxy\<close> invokes the four probes, in the order HTTP, HTTPS, SOCKS4, SOCKS5,
  for every candidate and every behaviour of the network; each flag of the outcome is the
  result of its own probe; and the endpoint is appended to the bucket of every protocol
  whose flag is true, independently of the other flags. Unless the checkpoint drain of the
  same call fails, the same holds of the text of each protocol (file followed by bucket) at
  the end of the call.
\<close>

theorem all_four_probes_run_buckets_independent:
  assumes "check_proxy net writable p s = (r, s')"
  shows "probe_log s' = probe_log s @ [(HTTP, p), (HTTPS, p), (SOCKS4, p), (SOCKS5, p)]
       \<and> res_http (outcome net p) = fst (test_http_proxy net p s)
       \<and> res_https (outcome net p) = fst (test_https_proxy net p s)
       \<and> res_socks4 (outcome net p) = fst (test_socks4_proxy net p s)
       \<and> res_socks5 (outcome net p) = fst (test_socks5_proxy net p s)
       \<and> (\<forall>res. r = Inr res \<longrightarrow> res = outcome net p)
       \<and> bucket Http (record_results (outcome net p) s)
           = bucket Http s @ (if res_http (outcome net p) then [p] else [])
       \<and> bucket Https (record_results (outcome net p) s)
           = bucket Https s @ (if res_https (outcome net p) then [p] else [])
       \<and> bucket Socks4 (record_results (outcome net p) s)
           = bucket Socks4 s @ (if res_socks4 (outcome net p) then [p] else [])
       \<and> bucket Socks5 (record_results (outcome net p) s)
           = bucket Socks5 s @ (if res_socks5 (outcome net p) then [p] else [])
       \<and> (r \<noteq> Inl OSError \<longrightarrow>
            stored Http s' = stored Http s @ (if res_http (outcome net p) then p @ [newline] else [])
          \<and> stored Https s' = stored Https s @ (if res_https (outcome net p) then p @ [newline] else [])
          \<and> stored Socks4 s' = stored Socks4 s @ (if res_socks4 (outcome net p) then p @ [newline] else [])
          \<and> stored Socks5 s' = stored Socks5 s @ (if res_socks5 (outcome net p) then p @ [newline] else []))"
proof -
  have p: "res_proxy (outcome net p) = p" by (simp add: outcome_def)
  have l: "probe_log s' = probe_log s @ [(HTTP, p), (HTTPS, p), (SOCKS4, p), (SOCKS5, p)]"
    using check_proxy_effects(3) [OF assms] by (simp add: config_def probe_calls_def)
  have r: "\<forall>res. r = Inr res \<longrightarrow> res = outcome net p"
    using assms unfolding check_proxy_unfold
    by (auto split: if_splits prod.splits option.splits)
  have st: "\<And>c. r \<noteq> Inl OSError \<Longrightarrow>
      stored c s' = stored c s @ (if placed c (outcome net p) then p @ [newline] else [])"
    by (rule check_proxy_effects(6) [OF assms])
  have b: "\<And>c. bucket c (record_results (outcome net p) s)
              = bucket c s @ (if placed c (outcome net p) then [p] else [])"
    by (simp add: record_results_bucket p)
  show ?thesis
    using l r st [of Http] st [of Https] st [of Socks4] st [of Socks5]
      b [of Http] b [of Https] b [of Socks4] b [of Socks5]
    by (simp add: probes_outcome)
qed

theorem all_four_probes_run_buckets_independent_witness:
  "probe_log (snd (check_proxy stub_net always_writable ''1.2.3.4:8080''
                     ((ProxyChecker 10 50)\<lparr>total_proxies := 1\<rparr>)))
     = [(HTTP, ''1.2.3.4:8080''), (HTTPS, ''1.2.3.4:8080''),
        (SOCKS4, ''1.2.3.4:8080''), (SOCKS5, ''1.2.3.4:8080'')]
   \<and> stored Http (snd (check_proxy stub_net always_writable ''1.2.3.4:8080''
                     ((ProxyChecker 10 50)\<lparr>total_proxies := 1\<rparr>))) = ''1.2.3.4:8080'' @ [newline]
   \<and> stored Https (snd (check_proxy stub_net always_writable ''1.2.3.4:8080''
                     ((ProxyChecker 10 50)\<lparr>total_proxies := 1\<rparr>))) = ''1.2.3.4:8080'' @ [newline]
   \<and> stored Socks4 (snd (check_proxy stub_net always_writable ''1.2.3.4:8080''
                     ((ProxyChecker 10 50)\<lparr>total_proxies := 1\<rparr>))) = []"
proof -
  let ?s = "(ProxyChecker 10 50)\<lparr>total_proxies := 1\<rparr>"
  have e: "stored c ?s = []" for c
    by (cases c) (simp_all add: stored_def ProxyChecker_def)
  have l: "probe_log ?s = []" by (simp add: ProxyChecker_def)
  have o: "res_http (outcome stub_net ''1.2.3.4:8080'')"
    "res_https (outcome stub_net ''1.2.3.4:8080'')"
    "\<not> res_socks4 (outcome stub_net ''1.2.3.4:8080'')"
    by code_simp+
  have n1: "fst (check_proxy stub_net always_writable ''1.2.3.4:8080'' ?s) \<noteq> Inl OSError"
    by code_simp
  obtain r1 s1 where c1: "check_proxy stub_net always_writable ''1.2.3.4:8080'' ?s = (r1, s1)"
    by fastforce
  from n1 c1 have r1: "r1 \<noteq> Inl OSError" by simp
  from all_four_probes_run_buckets_independent [OF c1] o r1
  show ?thesis unfolding c1 snd_conv e l by simp
qed

section \<open>Checkpoint conservation\<close>

lemma recorded_in_subset: "set (recorded_in net c (sort_key f ps)) \<subseteq> set ps"
  by (auto simp: recorded_in_def)

text \<open>
  C1, as the code has it. In a run whose writes all succeed, for any checkpoint interval and
  any schedule, the file of each category holds at run end the lines of the candidates that
  the outcome places in the category, in the order of recording; when no candidate contains
  a line end, the number of lines in the five output files is the sum, over the candidates,
  of the number of buckets each outcome puts its endpoint in (one per true flag, one for the
  failed bucket when no flag is true). It is therefore at least \<^verbatim>\<open>checked_proxies\<close>,
  which is the number of candidates, and equal to it when every outcome puts its endpoint in
  one bucket only. Whatever the writes of the checkpoint drains do, when the final drain can
  write, the five cumulative totals (the lengths of the buckets whose write succeeded) add
  up to the same sum.
\<close>

theorem lines_written_counts_placements:
  "(\<forall>c. out_files (snd (run_check net writable_throughout always_writable sched src
                          ((ProxyChecker t w)\<lparr>save_interval := k\<rparr>))) c
         = lines_text (recorded_in net c (sort_key (sched w) (candidates src))))
   \<and> checked_proxies (snd (run_check net writable_throughout always_writable sched src
                          ((ProxyChecker t w)\<lparr>save_interval := k\<rparr>)))
     = len (candidates src)
   \<and> ((\<forall>p \<in> set (candidates src). newline \<notin> set p) \<longrightarrow>
        lines_written (snd (run_check net writable_throughout always_writable sched src
                          ((ProxyChecker t w)\<lparr>save_interval := k\<rparr>)))
          = sum_list (map (\<lambda>p. placements (outcome net p)) (candidates src))
        \<and> checked_proxies (snd (run_check net writable_throughout always_writable sched src
                          ((ProxyChecker t w)\<lparr>save_interval := k\<rparr>)))
          \<le> lines_written (snd (run_check net writable_throughout always_writable sched src
                          ((ProxyChecker t w)\<lparr>save_interval := k\<rparr>)))
        \<and> ((\<forall>p \<in> set (candidates src). placements (outcome net p) = 1) \<longrightarrow>
             lines_written (snd (run_check net writable_throughout always_writable sched src
                          ((ProxyChecker t w)\<lparr>save_interval := k\<rparr>)))
             = checked_proxies (snd (run_check net writable_throughout always_writable sched src
                          ((ProxyChecker t w)\<lparr>save_interval := k\<rparr>)))))
   \<and> total Http (snd (run_check net fs always_writable sched src ((ProxyChecker t w)\<lparr>save_interval := k\<rparr>)))
     + total Https (snd (run_check net fs always_writable sched src ((ProxyChecker t w)\<lparr>save_interval := k\<rparr>)))
     + total Socks4 (snd (run_check net fs always_writable sched src ((ProxyChecker t w)\<lparr>save_interval := k\<rparr>)))
     + total Socks5 (snd (run_check net fs always_writable sched src ((ProxyChecker t w)\<lparr>save_interval := k\<rparr>)))
     + total Failed (snd (run_check net fs always_writable sched src ((ProxyChecker t w)\<lparr>save_interval := k\<rparr>)))
     = sum_list (map (\<lambda>p. placements (outcome net p)) (candidates src))"
proof -
  let ?order = "sort_key (sched w) (candidates src)"
  let ?G = "snd (run_check net writable_throughout always_writable sched src
                          ((ProxyChecker t w)\<lparr>save_interval := k\<rparr>))"
  let ?F = "snd (run_check net fs always_writable sched src ((ProxyChecker t w)\<lparr>save_interval := k\<rparr>))"
  let ?sum = "sum_list (map (\<lambda>p. placements (outcome net p)) (candidates src))"
  have wt: "\<forall>n c. writable_throughout n c = Written" by (simp add: writable_throughout_def)
  have f: "\<And>c. out_files ?G c = lines_text (recorded_in net c ?order)"
    by (rule run_check_final_files [OF wt])
  have n: "checked_proxies ?G = len (candidates src)"
    using run_check_final [where net = net and fs = writable_throughout and sched = sched
        and src = src and t = t and w = w and k = k]
    by auto
  have tot: "\<And>c. total c ?F = len (recorded_in net c ?order)"
    using run_check_final [where net = net and fs = fs and sched = sched
        and src = src and t = t and w = w and k = k]
    by auto
  have s: "sum_list (map (\<lambda>p. placements (outcome net p)) ?order) = ?sum"
    by (rule sum_list_sort_key)
  have ts: "total Http ?F + total Https ?F + total Socks4 ?F + total Socks5 ?F + total Failed ?F
            = ?sum"
    unfolding tot placements_sum s ..
  have lw: "lines_written ?G = ?sum \<and> checked_proxies ?G \<le> lines_written ?G
        \<and> ((\<forall>p \<in> set (candidates src). placements (outcome net p) = 1) \<longrightarrow>
             lines_written ?G = checked_proxies ?G)"
    if nl: "\<forall>p \<in> set (candidates src). newline \<notin> set p"
  proof -
    have "\<And>c. text_lines (out_files ?G c) = recorded_in net c ?order"
      unfolding f using nl recorded_in_subset [of net _ "sched w" "candidates src"]
      by (intro text_lines_lines_text) blast
    then have l: "lines_written ?G = ?sum"
      unfolding lines_written_def by (simp only: placements_sum s)
    show ?thesis
      unfolding l n
      using sum_list_placements_ge [of "candidates src" net]
      by (simp add: sum_list_placements_eq)
  qed
  from f n lw ts show ?thesis by blast
qed

theorem lines_written_counts_placements_witness:
  "lines_written (snd (run_check stub_net writable_throughout always_writable sched_fifo
      (Some [''9.9.9.9:1080'', ''5.6.7.8:3128'']) ((ProxyChecker 10 50)\<lparr>save_interval := 1\<rparr>)))
   = checked_proxies (snd (run_check stub_net writable_throughout always_writable sched_fifo
      (Some [''9.9.9.9:1080'', ''5.6.7.8:3128'']) ((ProxyChecker 10 50)\<lparr>save_interval := 1\<rparr>)))
   \<and> checked_proxies (snd (run_check stub_net writable_throughout always_writable sched_fifo
      (Some [''9.9.9.9:1080'', ''5.6.7.8:3128'']) ((ProxyChecker 10 50)\<lparr>save_interval := 1\<rparr>))) = 2"
proof -
  have h: "\<forall>p \<in> set (candidates (Some [''9.9.9.9:1080'', ''5.6.7.8:3128''])).
             placements (outcome stub_net p) = 1"
    by code_simp
  have nl: "\<forall>p \<in> set (candidates (Some [''9.9.9.9:1080'', ''5.6.7.8:3128''])). newline \<notin> set p"
    by code_simp
  have n: "len (candidates (Some [''9.9.9.9:1080'', ''5.6.7.8:3128''])) = 2"
    by code_simp
  note T = lines_written_counts_placements
    [where net = stub_net and sched = sched_fifo
       and src = "Some [''9.9.9.9:1080'', ''5.6.7.8:3128'']" and t = 10 and w = 50 and k = 1]
  note a = T [THEN conjunct2, THEN conjunct1]
  note b = T [THEN conjunct2, THEN conjunct2, THEN conjunct1, THEN mp, OF nl,
              THEN conjunct2, THEN conjunct2, THEN mp, OF h]
  show ?thesis unfolding b unfolding a n by simp
qed

text \<open>
  C1 as stated fails: one endpoint that works as an HTTP and as an HTTPS proxy is recorded
  once and written to two files.
\<close>

theorem lines_written_counterexample:
  "lines_written (snd (run_check stub_net writable_throughout always_writable sched_fifo
      (Some [''1.2.3.4:8080'']) (ProxyChecker 10 50))) = 2
   \<and> checked_proxies (snd (run_check stub_net writable_throughout always_writable sched_fifo
      (Some [''1.2.3.4:8080'']) (ProxyChecker 10 50))) = 1"
  by code_simp

text \<open>
  Why the writes have to succeed: three endpoints that fail every probe, a checkpoint every
  three, and a write to the failed file that stops after 20 characters. The bucket stays
  whole, the final drain writes it again after the 20 characters, and the file has four
  lines for three endpoints.
\<close>

lemma lines_written_after_failed_write:
  "out_files (snd (run_check stub_net failed_disk_full_at_third always_writable sched_fifo
      (Some [''5.6.7.8:3128'', ''6.7.8.9:3128'', ''7.8.9.1:3128''])
      ((ProxyChecker 10 50)\<lparr>save_interval := 3\<rparr>))) Failed
     = ''5.6.7.8:3128'' @ [newline] @ ''6.7.8.9'' @ ''5.6.7.8:3128'' @ [newline]
       @ ''6.7.8.9:3128'' @ [newline] @ ''7.8.9.1:3128'' @ [newline]
   \<and> lines_written (snd (run_check stub_net failed_disk_full_at_third always_writable sched_fifo
      (Some [''5.6.7.8:3128'', ''6.7.8.9:3128'', ''7.8.9.1:3128''])
      ((ProxyChecker 10 50)\<lparr>save_interval := 3\<rparr>))) = 4
   \<and> checked_proxies (snd (run_check stub_net failed_disk_full_at_third always_writable sched_fifo
      (Some [''5.6.7.8:3128'', ''6.7.8.9:3128'', ''7.8.9.1:3128''])
      ((ProxyChecker 10 50)\<lparr>save_interval := 3\<rparr>))) = 3"
  by code_simp

section \<open>Totals, buckets and the order of recording\<close>

lemma len_recorded_in_mset:
  "mset ps = mset qs \<Longrightarrow> len (recorded_in net c ps) = len (recorded_in net c qs)"
proof -
  assume "mset ps = mset qs"
  then have "mset (recorded_in net c ps) = mset (recorded_in net c qs)"
    by (simp add: recorded_in_def)
  then have "size (mset (recorded_in net c ps)) = size (mset (recorded_in net c qs))"
    by simp
  then show ?thesis by (simp add: len_def)
qed

lemma len_recorded_in_sort_key:
  "len (recorded_in net c (sort_key k ps)) = len (recorded_in net c ps)"
  by (rule len_recorded_in_mset) simp

text \<open>What a final drain does to a bucket and its total, whether its writes succeed or not.\<close>

lemma save_bucket_kept:
  "save_bucket False w c s = (e, s') \<Longrightarrow> bucket c' s' = bucket c' s"
  by (cases e) (simp_all add: save_bucket_None save_bucket_Some)

lemma save_buckets_kept:
  "save_buckets False w cs s = (e, s') \<Longrightarrow> bucket c' s' = bucket c' s"
  by (erule save_buckets_rel [where R = "\<lambda>a b. bucket c' b = bucket c' a"])
     (simp_all add: save_bucket_kept)

lemma save_buckets_total:
  "save_buckets clear w cs s = (e, s') \<Longrightarrow> distinct cs \<Longrightarrow>
     (c \<notin> set cs \<longrightarrow> total c s' = total c s)
     \<and> (total c s' = total c s \<or> total c s' = total c s + len (bucket c s))
     \<and> (e = None \<and> c \<in> set cs \<longrightarrow> total c s' = total c s + len (bucket c s))"
proof (induction cs arbitrary: s)
  case Nil
  then show ?case by simp
next
  case (Cons d cs)
  obtain e1 s1 where st: "save_bucket clear w d s = (e1, s1)" by fastforce
  show ?case
  proof (cases e1)
    case None
    with Cons.prems st have r: "save_buckets clear w cs s1 = (e, s')" by simp
    from Cons.prems have d: "distinct cs" "d \<notin> set cs" by simp_all
    note n1 = save_bucket_None [OF st [unfolded None]]
    note ih = Cons.IH [OF r d(1)]
    show ?thesis
    proof (cases "c = d")
      case True
      with d(2) ih have "total c s' = total c s1" by simp
      with True show ?thesis by (simp add: n1)
    next
      case False
      with ih show ?thesis by (simp add: n1)
    qed
  next
    case (Some x)
    with Cons.prems st have e: "e = Some x" "s1 = s'" by simp_all
    with st Some have "save_bucket clear w d s = (Some x, s')" by simp
    from save_bucket_Some(6) [OF this] e show ?thesis by simp
  qed
qed

lemma save_results_effects:
  assumes "save_results w s = (e, s')"
  shows "bucket c s' = bucket c s"
    and "total c s' = total c s \<or> total c s' = total c s + len (bucket c s)"
    and "e = None \<Longrightarrow> total c s' = total c s + len (bucket c s)"
    and "scalars s' = scalars s"
proof -
  from assms have r: "save_buckets False w drain_order s = (e, s')"
    by (simp add: save_results_buckets)
  show "bucket c s' = bucket c s" by (rule save_buckets_kept [OF r])
  show "total c s' = total c s \<or> total c s' = total c s + len (bucket c s)"
    using save_buckets_total [OF r distinct_drain_order, of c] by blast
  show "e = None \<Longrightarrow> total c s' = total c s + len (bucket c s)"
    using save_buckets_total [OF r distinct_drain_order, of c] in_drain_order [of c] by blast
  show "scalars s' = scalars s" by (rule save_buckets_scalars [OF r])
qed

lemma run_check_checked:
  "checked_proxies (snd (run_check net fs ff sched src self))
     = checked_proxies self + len (candidates src)"
proof (cases "candidates src = []")
  case True
  then show ?thesis by (simp add: run_check_unfold fst_load_proxies len_def)
next
  case False
  let ?L = "loop_state net fs sched src self"
  let ?S = "?L\<lparr> console := console ?L @
                [Summary (total_proxies ?L) (total_working_http ?L)
                   (total_working_https ?L) (total_working_socks4 ?L)
                   (total_working_socks5 ?L) (total_failed_proxies ?L)
                   (success_rate ?L)] \<rparr>"
  obtain e s' where r: "save_results ff ?S = (e, s')" by fastforce
  from save_results_effects(4) [OF r] have "checked_proxies s' = checked_proxies ?L"
    by (simp add: scalars_def)
  with r False show ?thesis
    by (simp add: run_check_unfold display_results_def loop_state_config)
qed




text \<open>
  C8, as the code has it. For a fixed candidate source and probe layer,
  \<^verbatim>\<open>checked_proxies\<close> at run end is the same for every pool size, every schedule and
  every behaviour of the file system; the cumulative totals at run end are the same for
  every pool size, every schedule and every behaviour of the file system during the
  checkpoint drains, provided the final drain can write; and recording the same candidates
  in another order then gives the same totals.
\<close>

theorem totals_independent_of_pool_size:
  "total c (snd (run_check net fs always_writable sched src ((ProxyChecker t w)\<lparr>save_interval := k\<rparr>)))
     = total c (snd (run_check net fs' always_writable sched' src ((ProxyChecker t w')\<lparr>save_interval := k\<rparr>)))
   \<and> checked_proxies (snd (run_check net fs ff sched src ((ProxyChecker t w)\<lparr>save_interval := k\<rparr>)))
     = checked_proxies (snd (run_check net fs' ff' sched' src ((ProxyChecker t w')\<lparr>save_interval := k\<rparr>)))
   \<and> (mset ps = mset qs \<longrightarrow>
        total c (snd (save_results always_writable (check_all net fs ps s)))
          = total c (snd (save_results always_writable (check_all net fs' qs s)))
        \<and> checked_proxies (snd (save_results always_writable (check_all net fs ps s)))
          = checked_proxies (snd (save_results always_writable (check_all net fs' qs s))))"
proof -
  have run: "\<And>fs sched w. total c (snd (run_check net fs always_writable sched src ((ProxyChecker t w)\<lparr>save_interval := k\<rparr>)))
       = len (recorded_in net c (candidates src))"
  proof -
    fix fs sched w
    show "total c (snd (run_check net fs always_writable sched src ((ProxyChecker t w)\<lparr>save_interval := k\<rparr>)))
       = len (recorded_in net c (candidates src))"
      using run_check_final [where net = net and fs = fs and sched = sched and src = src and t = t and w = w and k = k]
      by (auto simp: len_recorded_in_sort_key)
  qed
  have fin: "\<And>fs ps. total c (snd (save_results always_writable (check_all net fs ps s)))
        = accounted c s + len (recorded_in net c ps)
      \<and> checked_proxies (snd (save_results always_writable (check_all net fs ps s)))
        = checked_proxies s + len ps"
  proof -
    fix fs ps
    obtain s' where r: "save_results always_writable (check_all net fs ps s) = (None, s')"
      and t: "total c s' = accounted c (check_all net fs ps s)"
      and sc: "scalars s' = scalars (check_all net fs ps s)"
      using save_results_writable [of "check_all net fs ps s"] by blast
    from sc have "checked_proxies s' = checked_proxies (check_all net fs ps s)"
      by (simp add: scalars_def)
    moreover have "checked_proxies (check_all net fs ps s) = checked_proxies s + len ps"
      using check_all_config [of net fs ps s] by (simp add: config_def)
    ultimately show "total c (snd (save_results always_writable (check_all net fs ps s)))
        = accounted c s + len (recorded_in net c ps)
      \<and> checked_proxies (snd (save_results always_writable (check_all net fs ps s)))
        = checked_proxies s + len ps"
      using r t by (simp add: check_all_accounted recorded_in_def)
  qed
  have "mset ps = mset qs \<longrightarrow> len ps = len qs"
    by (metis len_def size_mset)
  then show ?thesis
    using len_recorded_in_mset [of ps qs net c]
    by (simp add: fin run run_check_checked)
qed

theorem totals_independent_of_pool_size_witness:
  "total Failed (snd (run_check stub_net writable_throughout always_writable stub_sched
       (Some [''1.2.3.4:8080'', ''5.6.7.8:3128'']) ((ProxyChecker 10 100)\<lparr>save_interval := 1\<rparr>))) = 1
   \<and> total Http (snd (run_check stub_net writable_throughout always_writable stub_sched
       (Some [''1.2.3.4:8080'', ''5.6.7.8:3128'']) ((ProxyChecker 10 10)\<lparr>save_interval := 1\<rparr>))) = 1
   \<and> total Failed (snd (save_results always_writable
        (check_all stub_net writable_throughout [''5.6.7.8:3128'', ''1.2.3.4:8080''] (ProxyChecker 10 50))))
     = total Failed (snd (save_results always_writable
        (check_all stub_net writable_throughout [''1.2.3.4:8080'', ''5.6.7.8:3128''] (ProxyChecker 10 50))))"
proof -
  let ?src = "Some [''1.2.3.4:8080'', ''5.6.7.8:3128'']"
  have v1: "total Failed (snd (run_check stub_net writable_throughout always_writable stub_sched
       ?src ((ProxyChecker 10 1)\<lparr>save_interval := 1\<rparr>))) = 1"
    by code_simp
  have v2: "total Http (snd (run_check stub_net writable_throughout always_writable stub_sched
       ?src ((ProxyChecker 10 1)\<lparr>save_interval := 1\<rparr>))) = 1"
    by code_simp
  have m: "mset [''5.6.7.8:3128'', ''1.2.3.4:8080''] = mset [''1.2.3.4:8080'', ''5.6.7.8:3128'']"
    by (simp add: add_mset_commute)
  note T = totals_independent_of_pool_size
     [where net = stub_net and fs = writable_throughout and fs' = writable_throughout
        and sched = stub_sched and sched' = stub_sched and src = ?src and t = 10 and k = 1
        and ps = "[''5.6.7.8:3128'', ''1.2.3.4:8080'']" and qs = "[''1.2.3.4:8080'', ''5.6.7.8:3128'']"
        and s = "ProxyChecker 10 50"]
  note a = T [where c = Failed and w = 100 and w' = 1, THEN conjunct1]
  note b = T [where c = Http and w = 10 and w' = 1, THEN conjunct1]
  note d = T [where c = Failed and w = 100 and w' = 1, THEN conjunct2, THEN conjunct2,
              rule_format, OF m, THEN conjunct1]
  show ?thesis unfolding a b v1 v2 using d by simp
qed

text \<open>
  C8 as stated fails when a file cannot be written. The http file cannot be opened, at the
  checkpoints and at the end; three candidates, a checkpoint every two. With one worker the
  HTTP proxy is the second to be recorded: every drain stops at the http bucket and the
  total of the failed category stays 0. With ten workers it is the last: the checkpoint
  after two candidates finds the http bucket empty and writes the failed bucket, and the
  total of the failed category is 2. Both runs end with the error of the final drain.
\<close>

theorem totals_depend_on_pool_size_counterexample:
  "total Failed (snd (run_check stub_net http_unwritable_throughout http_unwritable stub_sched
       (Some [''6.6.6.6:1'', ''1.2.3.4:8080'', ''5.6.7.8:3128''])
       ((ProxyChecker 10 1)\<lparr>save_interval := 2\<rparr>))) = 0
   \<and> total Failed (snd (run_check stub_net http_unwritable_throughout http_unwritable stub_sched
       (Some [''6.6.6.6:1'', ''1.2.3.4:8080'', ''5.6.7.8:3128''])
       ((ProxyChecker 10 10)\<lparr>save_interval := 2\<rparr>))) = 2
   \<and> fst (run_check stub_net http_unwritable_throughout http_unwritable stub_sched
       (Some [''6.6.6.6:1'', ''1.2.3.4:8080'', ''5.6.7.8:3128''])
       ((ProxyChecker 10 1)\<lparr>save_interval := 2\<rparr>)) = Some OSError
   \<and> fst (run_check stub_net http_unwritable_throughout http_unwritable stub_sched
       (Some [''6.6.6.6:1'', ''1.2.3.4:8080'', ''5.6.7.8:3128''])
       ((ProxyChecker 10 10)\<lparr>save_interval := 2\<rparr>)) = Some OSError"
  by code_simp

section \<open>The summary\<close>

lemma displayed_rates_scalars: "scalars a = scalars b \<Longrightarrow> displayed_rates a = displayed_rates b"
  by (simp add: scalars_def displayed_rates_def)

lemma displayed_rates_frame [simp]:
  "displayed_rates (s\<lparr>console := console s @ [SavedIntermediate n]\<rparr>) = displayed_rates s"
  "displayed_rates (s\<lparr>console := console s @ [ErrorChecking p e]\<rparr>) = displayed_rates s"
  "displayed_rates (s\<lparr>console := console s @ [Loaded a b c]\<rparr>) = displayed_rates s"
  "displayed_rates (s\<lparr>console := console s @ [Summary n a b c d f r]\<rparr>) = displayed_rates s @ [r]"
  "displayed_rates (s\<lparr>last_save_count := k\<rparr>) = displayed_rates s"
  "displayed_rates (s\<lparr>probe_log := l\<rparr>) = displayed_rates s"
  "displayed_rates (s\<lparr>total_proxies := k\<rparr>) = displayed_rates s"
  "displayed_rates (s\<lparr>save_interval := k\<rparr>) = displayed_rates s"
  by (simp_all add: displayed_rates_def)

lemma save_intermediate_results_rates:
  "displayed_rates (snd (save_intermediate_results w s)) = displayed_rates s"
proof -
  obtain e1 s1 where sb: "save_buckets True w drain_order s = (e1, s1)" by fastforce
  have "displayed_rates s1 = displayed_rates s"
    by (rule displayed_rates_scalars [OF save_buckets_scalars [OF sb]])
  then show ?thesis
    using sb by (cases e1) (simp_all add: save_intermediate_results_def)
qed

lemma after_record_rates: "displayed_rates (after_record net p s) = displayed_rates s"
  by (simp add: after_record_def displayed_rates_def record_results_fields)

lemma check_proxy_rates: "displayed_rates (snd (check_proxy net w p s)) = displayed_rates s"
proof -
  obtain r s' where cp: "check_proxy net w p s = (r, s')" by fastforce
  from check_proxy_state [OF cp] have "displayed_rates s' = displayed_rates s"
  proof
    assume "s' = after_record net p s \<and> r \<noteq> Inl OSError"
    then show ?thesis by (simp add: after_record_rates)
  next
    assume "\<exists>e. save_intermediate_results w (after_record net p s) = (e, s')
                 \<and> (r = Inl OSError \<longleftrightarrow> e \<noteq> None)"
    then obtain e where "save_intermediate_results w (after_record net p s) = (e, s')" by blast
    then have "s' = snd (save_intermediate_results w (after_record net p s))" by simp
    then show ?thesis by (simp add: save_intermediate_results_rates after_record_rates)
  qed
  with cp show ?thesis by simp
qed

lemma check_all_rates: "displayed_rates (check_all net fs ps s) = displayed_rates s"
proof (induction ps arbitrary: s)
  case Nil
  then show ?case by simp
next
  case (Cons p ps)
  obtain r s1 where cp: "check_proxy net (fs (checked_proxies s + 1)) p s = (r, s1)"
    by fastforce
  have s1: "displayed_rates s1 = displayed_rates s"
    using check_proxy_rates [of net "fs (checked_proxies s + 1)" p s] cp by simp
  show ?case
  proof (cases r)
    case (Inl e)
    with cp have "check_all net fs (p # ps) s
        = check_all net fs ps (s1\<lparr>console := console s1 @ [ErrorChecking p e]\<rparr>)"
      by simp
    then show ?thesis by (simp add: Cons.IH s1)
  next
    case (Inr res)
    with cp have "check_all net fs (p # ps) s = check_all net fs ps s1" by simp
    then show ?thesis by (simp add: Cons.IH s1)
  qed
qed

lemma load_proxies_rates: "displayed_rates (fst (load_proxies src s)) = displayed_rates s"
  by (cases src) (simp_all add: load_proxies_def Let_def displayed_rates_def)

lemma save_results_rates: "displayed_rates (snd (save_results w s)) = displayed_rates s"
proof -
  obtain e s' where sb: "save_buckets False w drain_order s = (e, s')" by fastforce
  then show ?thesis
    using displayed_rates_scalars [OF save_buckets_scalars [OF sb]]
    by (simp add: save_results_buckets)
qed

lemma display_results_rates:
  "total_proxies s \<noteq> 0 \<Longrightarrow>
     displayed_rates (snd (display_results w s)) = displayed_rates s @ [success_rate s]"
  by (simp add: display_results_def save_results_rates)

lemma run_check_rates:
  "displayed_rates (snd (run_check net fs fs_final sched src ((ProxyChecker t w)\<lparr>save_interval := k\<rparr>)))
     = (if candidates src = [] then []
        else [success_rate (loop_state net fs sched src ((ProxyChecker t w)\<lparr>save_interval := k\<rparr>))])"
proof -
  have f: "displayed_rates (ProxyChecker t w) = []"
    by (simp add: displayed_rates_def ProxyChecker_def)
  show ?thesis
  proof (cases "candidates src = []")
    case True
    then show ?thesis by (simp add: run_check_unfold load_proxies_rates f)
  next
    case False
    then have "total_proxies (loop_state net fs sched src ((ProxyChecker t w)\<lparr>save_interval := k\<rparr>)) \<noteq> 0"
      by (simp add: loop_state_config len_def)
    with False show ?thesis
      by (simp add: run_check_unfold display_results_rates)
         (simp add: loop_state_def check_all_rates load_proxies_rates f)
  qed
qed

lemma success_rate_bounds:
  assumes "0 < total_proxies s"
    and "0 \<le> total_working_http s" and "0 \<le> total_working_https s"
    and "0 \<le> total_working_socks4 s" and "0 \<le> total_working_socks5 s"
    and "0 \<le> total_failed_proxies s" and "total_failed_proxies s \<le> total_proxies s"
  shows "0 \<le> success_rate s \<and> success_rate s \<le> 100"
proof -
  let ?n = "total_proxies s"
  let ?tw = "total_working_http s + total_working_https s
               + total_working_socks4 s + total_working_socks5 s"
  have q: "0 \<le> real_of_int a / real_of_int ?n * 100 \<and> real_of_int a / real_of_int ?n * 100 \<le> 100"
    if "0 \<le> a" "a \<le> ?n" for a
  proof -
    define x where "x = real_of_int a / real_of_int ?n"
    from that assms(1) have "0 \<le> x" and "x \<le> 1" by (simp_all add: x_def)
    then have "0 \<le> x * 100 \<and> x * 100 \<le> 100" by simp
    then show ?thesis unfolding x_def .
  qed
  show ?thesis
  proof (cases "?tw \<le> ?n")
    case True
    with assms q [of ?tw] show ?thesis by (simp add: success_rate_def Let_def)
  next
    case False
    with assms q [of "?n - total_failed_proxies s"] show ?thesis
      by (simp add: success_rate_def Let_def)
  qed
qed

lemma loop_state_totals:
  "0 \<le> total c (loop_state net fs sched src ((ProxyChecker t w)\<lparr>save_interval := k\<rparr>))"
  "total c (loop_state net fs sched src ((ProxyChecker t w)\<lparr>save_interval := k\<rparr>))
     \<le> len (candidates src)"
proof -
  let ?self = "(ProxyChecker t w)\<lparr>save_interval := k\<rparr>"
  let ?L = "loop_state net fs sched src ?self"
  have "total c (fst (load_proxies src ?self)) \<le> total c ?L"
    unfolding loop_state_def by (rule check_all_total_mono)
  then show "0 \<le> total c ?L" by (simp add: fst_load_proxies)
  have "total c ?L \<le> accounted c ?L" by (simp add: accounted_def len_def)
  also have "\<dots> = len (recorded_in net c (sort_key (sched w) (candidates src)))"
    by (simp add: loop_state_accounted)
  also have "\<dots> = len (recorded_in net c (candidates src))"
    by (rule len_recorded_in_sort_key)
  also have "\<dots> \<le> len (candidates src)"
    by (simp add: recorded_in_def len_def)
  finally show "total c ?L \<le> len (candidates src)" .
qed

text \<open>
  C10. The success rate that the summary of a run shows lies between 0 and 100, for every
  candidate source, probe layer, schedule, checkpoint interval and behaviour of the file
  system (the rate is taken as a real number; \<^verbatim>\<open>display_results\<close> is reached only
  with at least one candidate). When the four working totals together exceed
  \<^verbatim>\<open>total_proxies\<close>, the rate is
  \<^verbatim>\<open>(total_proxies - total_failed_proxies) / total_proxies * 100\<close>, and the failed
  total is between 0 and \<^verbatim>\<open>total_proxies\<close>.
\<close>

theorem displayed_success_rate_in_range:
  "(\<forall>r \<in> set (displayed_rates (snd (run_check net fs fs_final sched src
                   ((ProxyChecker t w)\<lparr>save_interval := k\<rparr>)))). 0 \<le> r \<and> r \<le> 100)
   \<and> displayed_rates (snd (run_check net fs fs_final sched src
                   ((ProxyChecker t w)\<lparr>save_interval := k\<rparr>)))
       = (if candidates src = [] then []
          else [success_rate (loop_state net fs sched src ((ProxyChecker t w)\<lparr>save_interval := k\<rparr>))])
   \<and> 0 \<le> total_failed_proxies (loop_state net fs sched src ((ProxyChecker t w)\<lparr>save_interval := k\<rparr>))
   \<and> (candidates src \<noteq> [] \<longrightarrow>
         total_failed_proxies (loop_state net fs sched src ((ProxyChecker t w)\<lparr>save_interval := k\<rparr>))
           \<le> total_proxies (loop_state net fs sched src ((ProxyChecker t w)\<lparr>save_interval := k\<rparr>))
         \<and> 0 < total_proxies (loop_state net fs sched src ((ProxyChecker t w)\<lparr>save_interval := k\<rparr>)))
   \<and> (total_proxies (loop_state net fs sched src ((ProxyChecker t w)\<lparr>save_interval := k\<rparr>))
        < total_working_http (loop_state net fs sched src ((ProxyChecker t w)\<lparr>save_interval := k\<rparr>))
          + total_working_https (loop_state net fs sched src ((ProxyChecker t w)\<lparr>save_interval := k\<rparr>))
          + total_working_socks4 (loop_state net fs sched src ((ProxyChecker t w)\<lparr>save_interval := k\<rparr>))
          + total_working_socks5 (loop_state net fs sched src ((ProxyChecker t w)\<lparr>save_interval := k\<rparr>))
        \<longrightarrow> success_rate (loop_state net fs sched src ((ProxyChecker t w)\<lparr>save_interval := k\<rparr>))
            = real_of_int (total_proxies (loop_state net fs sched src ((ProxyChecker t w)\<lparr>save_interval := k\<rparr>))
                           - total_failed_proxies (loop_state net fs sched src ((ProxyChecker t w)\<lparr>save_interval := k\<rparr>)))
              / real_of_int (total_proxies (loop_state net fs sched src ((ProxyChecker t w)\<lparr>save_interval := k\<rparr>)))
              * 100)"
proof -
  let ?self = "(ProxyChecker t w)\<lparr>save_interval := k\<rparr>"
  let ?L = "loop_state net fs sched src ?self"
  note tot = loop_state_totals [where net = net and fs = fs and sched = sched and src = src
      and t = t and w = w and k = k]
  have nonneg: "0 \<le> total_working_http ?L" "0 \<le> total_working_https ?L"
    "0 \<le> total_working_socks4 ?L" "0 \<le> total_working_socks5 ?L"
    "0 \<le> total_failed_proxies ?L"
    using tot(1) [of Http] tot(1) [of Https] tot(1) [of Socks4] tot(1) [of Socks5]
      tot(1) [of Failed]
    by simp_all
  have failed: "total_failed_proxies ?L \<le> len (candidates src)"
    using tot(2) [of Failed] by simp
  have n: "candidates src \<noteq> [] \<Longrightarrow> total_proxies ?L = len (candidates src)"
    by (simp add: loop_state_config)
  have pos: "candidates src \<noteq> [] \<Longrightarrow> 0 < total_proxies ?L"
    using n by (simp add: len_def)
  have range: "candidates src \<noteq> [] \<Longrightarrow> 0 \<le> success_rate ?L \<and> success_rate ?L \<le> 100"
    using success_rate_bounds [of ?L] nonneg failed n pos by simp
  have rates: "displayed_rates (snd (run_check net fs fs_final sched src ?self))
       = (if candidates src = [] then [] else [success_rate ?L])"
    by (rule run_check_rates)
  have fallback: "total_proxies ?L < total_working_http ?L + total_working_https ?L
          + total_working_socks4 ?L + total_working_socks5 ?L
        \<longrightarrow> success_rate ?L
            = real_of_int (total_proxies ?L - total_failed_proxies ?L)
              / real_of_int (total_proxies ?L) * 100"
    by (simp add: success_rate_def Let_def)
  have "\<forall>r \<in> set (displayed_rates (snd (run_check net fs fs_final sched src ?self))).
          0 \<le> r \<and> r \<le> 100"
    unfolding rates using range by simp
  moreover have "candidates src \<noteq> [] \<longrightarrow>
      total_failed_proxies ?L \<le> total_proxies ?L \<and> 0 < total_proxies ?L"
    using failed n pos by simp
  ultimately show ?thesis
    using rates nonneg(5) fallback by blast
qed

theorem displayed_success_rate_in_range_witness:
  "candidates (Some [''1.2.3.4:8080'']) \<noteq> []
   \<and> displayed_rates (snd (run_check stub_net writable_throughout always_writable sched_fifo
        (Some [''1.2.3.4:8080'']) ((ProxyChecker 10 50)\<lparr>save_interval := 1\<rparr>))) = [100]
   \<and> total_working_http (loop_state stub_net writable_throughout sched_fifo
        (Some [''1.2.3.4:8080'']) ((ProxyChecker 10 50)\<lparr>save_interval := 1\<rparr>))
       + total_working_https (loop_state stub_net writable_throughout sched_fifo
        (Some [''1.2.3.4:8080'']) ((ProxyChecker 10 50)\<lparr>save_interval := 1\<rparr>)) = 2
   \<and> total_proxies (loop_state stub_net writable_throughout sched_fifo
        (Some [''1.2.3.4:8080'']) ((ProxyChecker 10 50)\<lparr>save_interval := 1\<rparr>)) = 1"
proof -
  let ?src = "Some [''1.2.3.4:8080'']"
  let ?self = "(ProxyChecker 10 50)\<lparr>save_interval := 1\<rparr>"
  let ?L = "loop_state stub_net writable_throughout sched_fifo ?src ?self"
  have c: "candidates ?src \<noteq> []" by code_simp
  have tw: "total_working_http ?L + total_working_https ?L = 2" by code_simp
  have ts: "total_working_socks4 ?L + total_working_socks5 ?L = 0" by code_simp
  have tp: "total_proxies ?L = 1" by code_simp
  have tf: "total_failed_proxies ?L = 0" by code_simp
  note T = displayed_success_rate_in_range
    [where net = stub_net and fs = writable_throughout and fs_final = always_writable
       and sched = sched_fifo and src = ?src and t = 10 and w = 50 and k = 1]
  have h: "total_proxies ?L < total_working_http ?L + total_working_https ?L
             + total_working_socks4 ?L + total_working_socks5 ?L"
    using tw ts tp by simp
  from T [THEN conjunct2, THEN conjunct2, THEN conjunct2, THEN conjunct2, rule_format, OF h]
  have "success_rate ?L = 100" unfolding tp tf by simp
  with T [THEN conjunct2, THEN conjunct1] c
  have "displayed_rates (snd (run_check stub_net writable_throughout always_writable sched_fifo
        ?src ?self)) = [100]"
    by simp
  with c tw tp show ?thesis by simp
qed

section \<open>Drains that cannot write\<close>








section \<open>Which strings become candidates\<close>

lemma set_add_matches:
  "set (add_matches ms proxies)
     = set proxies \<union> {p. \<exists>m \<in> set ms. p = remove_spaces m \<and> validate_proxy_format p}"
  by (induction ms arbitrary: proxies) (auto simp: Let_def)

lemma set_extract_patterns:
  "set (extract_patterns findall pats text proxies)
     = set proxies \<union> {p. \<exists>pat \<in> set pats. \<exists>m \<in> set (findall pat text).
                              p = remove_spaces m \<and> validate_proxy_format p}"
  by (induction pats arbitrary: proxies) (auto simp: set_add_matches)

lemma set_extract_proxies_from_text:
  "set (extract_proxies_from_text findall text)
     = {p. \<exists>pat \<in> set proxy_patterns. \<exists>m \<in> set (findall pat text).
              p = remove_spaces m \<and> validate_proxy_format p}"
  by (simp add: extract_proxies_from_text_def set_extract_patterns)

lemma validate_proxy_format_syntax:
  assumes "validate_proxy_format p"
  shows "endpoint_syntax_ok p"
proof -
  from assms obtain ip port where sp: "split_on CHR '':'' p = [ip, port]"
    by (auto simp: validate_proxy_format_def validate_try_def unpack2_def
        split: sum.splits list.splits)
  from assms sp have len4: "length (split_on CHR ''.'' ip) = 4"
    by (auto simp: validate_proxy_format_def validate_try_def unpack2_def Let_def
        split: sum.splits if_splits)
  then have host: "ip \<noteq> []" by auto
  from assms sp len4 obtain n where "py_int port = Some n" "1 \<le> n" "n \<le> 65535"
    by (auto simp: validate_proxy_format_def validate_try_def unpack2_def Let_def
        split: sum.splits if_splits option.splits bool.splits)
  with sp host show ?thesis by (simp add: endpoint_syntax_ok_def)
qed

lemma placed_somewhere: "\<exists>c. placed c r"
proof (cases "res_http r \<or> res_https r \<or> res_socks4 r \<or> res_socks5 r")
  case True
  then consider "placed Http r" | "placed Https r" | "placed Socks4 r" | "placed Socks5 r"
    by auto
  then show ?thesis by cases blast+
next
  case False
  then have "placed Failed r" by simp
  then show ?thesis by blast
qed

lemma sublist_later: "sublist x g \<Longrightarrow> sublist x (f @ g)"
proof -
  assume "sublist x g"
  then obtain ps ss where "g = ps @ x @ ss" by (auto simp: sublist_def)
  then have "f @ g = (f @ ps) @ x @ ss" by simp
  then show ?thesis unfolding sublist_def by blast
qed

lemma held_in_stored: "held c p s \<Longrightarrow> sublist (p @ [newline]) (stored c s)"
  unfolding held_def stored_def
  by (auto intro: sublist_later sublist_grow sublist_line_lines_text)

text \<open>
  C9, as the code has it. Every string that the scraper's extraction admits passes
  \<^verbatim>\<open>validate_proxy_format\<close> (four dot-separated integers between 0 and 255 and a port
  between 1 and 65535) and therefore the endpoint validation of the specification; the
  extracted set is exactly the matches, spaces removed, that pass it. The checker's
  \<^verbatim>\<open>load_proxies\<close> validates nothing: every non-empty trimmed line is a candidate, and
  every candidate is probed by all four probes and, in a run whose final drain can write,
  written to an output file: the endpoint followed by a line end is part of the file.
\<close>

theorem extraction_validates_load_does_not:
  "(\<forall>p \<in> set (extract_proxies_from_text findall page).
       validate_proxy_format p \<and> endpoint_syntax_ok p)
   \<and> set (extract_proxies_from_text findall page)
       = {p. \<exists>pat \<in> set proxy_patterns. \<exists>m \<in> set (findall pat page).
                p = remove_spaces m \<and> validate_proxy_format p}
   \<and> set (candidates (Some ls)) = strip ` set ls - {[]}
   \<and> (\<forall>p \<in> set (candidates src).
         (\<exists>c. sublist (p @ [newline])
                 (out_files (snd (run_check net fs always_writable sched src
                                          ((ProxyChecker t w)\<lparr>save_interval := k\<rparr>))) c))
         \<and> set (probe_calls p)
             \<subseteq> set (probe_log (snd (run_check net fs always_writable sched src
                                      ((ProxyChecker t w)\<lparr>save_interval := k\<rparr>)))))"
proof -
  let ?self = "(ProxyChecker t w)\<lparr>save_interval := k\<rparr>"
  let ?final = "snd (run_check net fs always_writable sched src ?self)"
  let ?order = "sort_key (sched w) (candidates src)"
  let ?L = "loop_state net fs sched src ?self"
  have 1: "\<forall>p \<in> set (extract_proxies_from_text findall page).
       validate_proxy_format p \<and> endpoint_syntax_ok p"
    by (auto simp: set_extract_proxies_from_text validate_proxy_format_syntax)
  have 3: "set (candidates (Some ls)) = strip ` set ls - {[]}"
    by (simp add: candidates_def set_all_lines)
  note fin = run_check_final [where net = net and fs = fs and sched = sched and src = src
        and t = t and w = w and k = k]
  have files: "out_files ?final c = stored c ?L" for c
    using fin by auto
  have log: "probe_log ?final = concat (map probe_calls ?order)"
    using fin by auto
  have 4: "\<forall>p \<in> set (candidates src).
         (\<exists>c. sublist (p @ [newline]) (out_files ?final c))
         \<and> set (probe_calls p) \<subseteq> set (probe_log ?final)"
  proof
    fix p assume p: "p \<in> set (candidates src)"
    obtain c where c: "placed c (outcome net p)" using placed_somewhere by blast
    from p have "p \<in> set ?order" by simp
    from check_all_held [OF this c] have "held c p ?L"
      by (simp add: loop_state_def)
    then have "sublist (p @ [newline]) (out_files ?final c)"
      unfolding files by (rule held_in_stored)
    moreover from p have "set (probe_calls p) \<subseteq> set (probe_log ?final)"
      by (auto simp: log)
    ultimately show "(\<exists>c. sublist (p @ [newline]) (out_files ?final c))
        \<and> set (probe_calls p) \<subseteq> set (probe_log ?final)"
      by blast
  qed
  from 1 3 4 show ?thesis by (simp add: set_extract_proxies_from_text)
qed

theorem extraction_validates_load_does_not_witness:
  "''5.6.7.8:3128'' \<in> set (extract_proxies_from_text stub_findall ''page'')
   \<and> validate_proxy_format ''5.6.7.8:3128''
   \<and> endpoint_syntax_ok ''5.6.7.8:3128''
   \<and> ''999.1.1.1:80'' \<notin> set (extract_proxies_from_text stub_findall ''page'')
   \<and> (\<exists>c. sublist (''no port'' @ [newline])
             (out_files (snd (run_check stub_net http_disk_full always_writable sched_fifo
                                (Some [''1.2.3.4:8080'', ''no port''])
                                ((ProxyChecker 10 50)\<lparr>save_interval := 1\<rparr>))) c))"
proof -
  have m: "''5.6.7.8:3128'' \<in> set (extract_proxies_from_text stub_findall ''page'')"
    by code_simp
  have n: "''999.1.1.1:80'' \<notin> set (extract_proxies_from_text stub_findall ''page'')"
    by code_simp
  have q: "''no port'' \<in> set (candidates (Some [''1.2.3.4:8080'', ''no port'']))"
    by code_simp
  note T = extraction_validates_load_does_not
    [where findall = stub_findall and page = "''page''", THEN conjunct1, THEN bspec, OF m]
  note U = extraction_validates_load_does_not
    [where net = stub_net and fs = http_disk_full and sched = sched_fifo
       and src = "Some [''1.2.3.4:8080'', ''no port'']" and t = 10 and w = 50 and k = 1,
     THEN conjunct2, THEN conjunct2, THEN conjunct2, THEN bspec, OF q, THEN conjunct1]
  from m n T U show ?thesis by blast
qed

text \<open>
  C9 as stated fails for the checker: a line that is no host:port pair is loaded, probed
  and written to the failed file.
\<close>

theorem unvalidated_candidate_counterexample:
  "candidates (Some [''not-a-proxy'']) = [''not-a-proxy'']
   \<and> \<not> endpoint_syntax_ok ''not-a-proxy''
   \<and> \<not> validate_proxy_format ''not-a-proxy''
   \<and> out_files (snd (run_check stub_net writable_throughout always_writable sched_fifo
        (Some [''not-a-proxy'']) (ProxyChecker 10 50))) Failed = ''not-a-proxy'' @ [newline]
   \<and> probe_log (snd (run_check stub_net writable_throughout always_writable sched_fifo
        (Some [''not-a-proxy'']) (ProxyChecker 10 50)))
      = [(HTTP, ''not-a-proxy''), (HTTPS, ''not-a-proxy''),
         (SOCKS4, ''not-a-proxy''), (SOCKS5, ''not-a-proxy'')]"
  by code_simp

end
